theory Spec2Isabelle
  imports Complex_Main "HOL-Library.Word"
begin

section \<open>Parsed JSON documents\<close>

text \<open>
  A token file is read with \<^verbatim>\<open>JSON.parse(fs.readFileSync(inputFile, "utf-8"))\<close>.
  The result is an arbitrary JSON value.  An object is kept as the list of its
  own properties in enumeration order; \<^verbatim>\<open>JSON.parse\<close> never yields two properties
  with one name, which the predicate \<open>distinctKeys\<close> below records where a
  statement needs it.  The payload of a number is never inspected by the program.
\<close>

datatype json =
    JNull
  | JBool bool
  | JNum rat
  | JStr string
  | JArr "json list"
  | JObj "(string \<times> json) list"

text \<open>
  Exceptions are values.  \<open>TypeError\<close> is what the JavaScript runtime raises,
  \<open>Error\<close> is \<^verbatim>\<open>new Error(message)\<close> of the program itself, \<open>SystemError\<close>
  stands for any failure of the file system, the JSON parser or the external
  engine.
\<close>

datatype error =
    TypeError string
  | Error string
  | SystemError string

text \<open>\<^verbatim>\<open>value && typeof value === "object"\<close>: true of arrays and of objects,
  false of \<^verbatim>\<open>null\<close> and of every primitive.\<close>

fun isObject :: "json \<Rightarrow> bool" where
  "isObject (JArr xs) = True"
| "isObject (JObj kvs) = True"
| "isObject _ = False"

text \<open>The property name of an array index: its decimal numeral (\<^verbatim>\<open>String(i)\<close>).\<close>

function indexKey :: "nat \<Rightarrow> string" where
  "indexKey n =
     (if n < 10 then [char_of (48 + n)]
      else indexKey (n div 10) @ [char_of (48 + n mod 10)])"
  by pat_completeness auto
termination
  by (relation "measure id") auto

declare indexKey.simps [simp del]

definition indexKeys :: "nat \<Rightarrow> string list" where
  "indexKeys n = map indexKey [0..<n]"

text \<open>
  \<^verbatim>\<open>Object.entries(x)\<close>: it throws a \<^verbatim>\<open>TypeError\<close> on \<^verbatim>\<open>null\<close>, finds no property
  in a number or a boolean, one property per character in a string, one per
  index in an array and the own properties of an object.
  \<^verbatim>\<open>Object.values(x)\<close> enumerates the same properties without their names, so
  the loops over \<^verbatim>\<open>Object.values\<close> below run over these entries and ignore the
  key.
\<close>

fun objectEntries :: "json \<Rightarrow> error + (string \<times> json) list" where
  "objectEntries JNull = Inl (TypeError ''Cannot convert undefined or null to object'')"
| "objectEntries (JBool b) = Inr []"
| "objectEntries (JNum n) = Inr []"
| "objectEntries (JStr s) = Inr (zip (indexKeys (length s)) (map (\<lambda>c. JStr [c]) s))"
| "objectEntries (JArr xs) = Inr (zip (indexKeys (length xs)) xs)"
| "objectEntries (JObj kvs) = Inr kvs"

text \<open>
  The operator \<^verbatim>\<open>key in obj\<close>, which the program applies to the two names
  \<^verbatim>\<open>"value"\<close> and \<^verbatim>\<open>"$value"\<close> only, and only where \<open>isObject obj\<close>.  Neither name
  is a property of an array or of a prototype.
\<close>

fun inOp :: "string \<Rightarrow> json \<Rightarrow> bool" where
  "inOp k (JObj kvs) = (k \<in> fst ` set kvs)"
| "inOp k _ = False"

text \<open>\<^verbatim>\<open>segments.join(sep)\<close> on an array of strings, a string being a list of
  characters or of code units.\<close>

fun join :: "'a list \<Rightarrow> 'a list list \<Rightarrow> 'a list" where
  "join sep [] = []"
| "join sep [x] = x"
| "join sep (x # y # ys) = x @ sep @ join sep (y # ys)"

subsection \<open>Termination of the tree walks\<close>

text \<open>Every walk recurses from a value into the entries of that value, and
  from an entry list into a value that \<open>isObject\<close>.\<close>

definition walk_weight :: "json \<Rightarrow> nat" where
  "walk_weight t = 2 * size t + 1 + (case t of JStr s \<Rightarrow> 2 * length s | _ \<Rightarrow> 0)"

definition entries_weight :: "(string \<times> json) list \<Rightarrow> nat" where
  "entries_weight es = 2 * size_list (\<lambda>kv. size (snd kv)) es"

lemma size_list_zip_snd:
  "size_list (\<lambda>kv. f (snd kv)) (zip ks xs) \<le> size_list f xs"
  by (induction xs arbitrary: ks) (auto simp: zip_Cons split: list.splits)

lemma size_list_snd_prod:
  "size_list (\<lambda>kv. size (snd kv)) (kvs :: (string \<times> json) list)
     \<le> size_list (size_prod (\<lambda>_. 0) size) kvs"
  by (induction kvs) auto

lemma size_list_chars:
  "size_list (\<lambda>kv. size (snd kv)) (zip ks (map (\<lambda>c. JStr [c]) s)) \<le> length s"
  by (induction s arbitrary: ks) (auto simp: zip_Cons split: list.splits)

lemma entries_weight_less:
  "objectEntries t = Inr es \<Longrightarrow> entries_weight es < walk_weight t"
proof (cases t)
  case (JStr s)
  assume "objectEntries t = Inr es"
  with JStr have "es = zip (indexKeys (length s)) (map (\<lambda>c. JStr [c]) s)" by simp
  with size_list_chars [of "indexKeys (length s)" s] JStr show ?thesis
    by (simp add: entries_weight_def walk_weight_def)
next
  case (JArr xs)
  assume "objectEntries t = Inr es"
  with JArr have "es = zip (indexKeys (length xs)) xs" by simp
  with size_list_zip_snd [of size "indexKeys (length xs)" xs] JArr show ?thesis
    by (simp add: entries_weight_def walk_weight_def)
next
  case (JObj kvs)
  assume "objectEntries t = Inr es"
  with JObj have "es = kvs" by simp
  with size_list_snd_prod [of kvs] JObj show ?thesis
    by (simp add: entries_weight_def walk_weight_def)
qed (auto simp: entries_weight_def walk_weight_def)

lemma walk_weight_less:
  "isObject v \<Longrightarrow> walk_weight v < entries_weight ((k, v) # rest)"
  by (cases v) (auto simp: entries_weight_def walk_weight_def)

lemma entries_weight_rest:
  "entries_weight rest < entries_weight (kv # rest)"
  by (simp add: entries_weight_def)

section \<open>Token inspection (transform.ts)\<close>

text \<open>
  \<^verbatim>\<open>hasLegacyTokenFormat(tokens)\<close>: the loop over \<^verbatim>\<open>Object.values(tokens)\<close> is the
  function \<open>hasLegacyTokenFormat_for\<close>.
\<close>

function hasLegacyTokenFormat :: "json \<Rightarrow> error + bool"
  and hasLegacyTokenFormat_for :: "(string \<times> json) list \<Rightarrow> error + bool" where
  "hasLegacyTokenFormat tokens =
     (case objectEntries tokens of
        Inl e \<Rightarrow> Inl e
      | Inr es \<Rightarrow> hasLegacyTokenFormat_for es)"
| "hasLegacyTokenFormat_for [] = Inr False"
| "hasLegacyTokenFormat_for ((key, v) # rest) =
     (if isObject v then
        (if inOp ''value'' v \<and> \<not> inOp ''$value'' v then Inr True
         else (case hasLegacyTokenFormat v of
                 Inl e \<Rightarrow> Inl e
               | Inr found \<Rightarrow> if found then Inr True else hasLegacyTokenFormat_for rest))
      else hasLegacyTokenFormat_for rest)"
  by pat_completeness auto
termination
  by (relation "measure (\<lambda>x. case x of Inl t \<Rightarrow> walk_weight t | Inr es \<Rightarrow> entries_weight es)")
     (auto simp: entries_weight_less walk_weight_less entries_weight_rest)

text \<open>
  \<^verbatim>\<open>validateDTCGFormat(tokens, fileName)\<close> throws when the legacy format is
  found.  The message is the one of the source.
\<close>

definition legacyMessage :: "string \<Rightarrow> string" where
  "legacyMessage fileName =
     ''Token file '' @ [CHR 0x22] @ fileName @ [CHR 0x22] @ '' is not in W3C DTCG format. ''
     @ ''Found legacy format using '' @ [CHR 0x22] @ ''value'' @ [CHR 0x22] @ '' and ''
     @ [CHR 0x22] @ ''type'' @ [CHR 0x22] @ '' properties. ''
     @ ''Please use '' @ [CHR 0x22] @ ''$value'' @ [CHR 0x22] @ '' and ''
     @ [CHR 0x22] @ ''$type'' @ [CHR 0x22] @ '' properties instead. ''
     @ ''See: https://tr.designtokens.org/format/''"

definition validateDTCGFormat :: "json \<Rightarrow> string \<Rightarrow> error + unit" where
  "validateDTCGFormat tokens fileName =
     (case hasLegacyTokenFormat tokens of
        Inl e \<Rightarrow> Inl e
      | Inr found \<Rightarrow> if found then Inl (Error (legacyMessage fileName)) else Inr ())"

text \<open>\<^verbatim>\<open>countTokens(tokens, count = 0)\<close>.\<close>

function countTokens :: "json \<Rightarrow> nat \<Rightarrow> error + nat"
  and countTokens_for :: "(string \<times> json) list \<Rightarrow> nat \<Rightarrow> error + nat" where
  "countTokens tokens count =
     (case objectEntries tokens of
        Inl e \<Rightarrow> Inl e
      | Inr es \<Rightarrow> countTokens_for es count)"
| "countTokens_for [] count = Inr count"
| "countTokens_for ((key, v) # rest) count =
     (if isObject v then
        (if inOp ''$value'' v then countTokens_for rest (count + 1)
         else (case countTokens v count of
                 Inl e \<Rightarrow> Inl e
               | Inr count' \<Rightarrow> countTokens_for rest count'))
      else countTokens_for rest count)"
  by pat_completeness auto
termination
  by (relation "measure (\<lambda>x. case x of Inl (t, c) \<Rightarrow> walk_weight t
                                      | Inr (es, c) \<Rightarrow> entries_weight es)")
     (auto simp: entries_weight_less walk_weight_less entries_weight_rest)

text \<open>
  \<^verbatim>\<open>extractTokenPaths(tokens, currentPath = [], paths = new Set())\<close>.  The source
  mutates the one shared \<^verbatim>\<open>Set\<close> and ignores the result of the recursive call;
  here the set is passed on and returned.
\<close>

function extractTokenPaths :: "json \<Rightarrow> string list \<Rightarrow> string set \<Rightarrow> error + string set"
  and extractTokenPaths_for ::
    "(string \<times> json) list \<Rightarrow> string list \<Rightarrow> string set \<Rightarrow> error + string set" where
  "extractTokenPaths tokens currentPath paths =
     (case objectEntries tokens of
        Inl e \<Rightarrow> Inl e
      | Inr es \<Rightarrow> extractTokenPaths_for es currentPath paths)"
| "extractTokenPaths_for [] currentPath paths = Inr paths"
| "extractTokenPaths_for ((key, v) # rest) currentPath paths =
     (if isObject v then
        (let newPath = currentPath @ [key] in
         if inOp ''$value'' v
         then extractTokenPaths_for rest currentPath (insert (join ''.'' newPath) paths)
         else (case extractTokenPaths v newPath paths of
                 Inl e \<Rightarrow> Inl e
               | Inr paths' \<Rightarrow> extractTokenPaths_for rest currentPath paths'))
      else extractTokenPaths_for rest currentPath paths)"
  by pat_completeness auto
termination
  by (relation "measure (\<lambda>x. case x of Inl (t, p, s) \<Rightarrow> walk_weight t
                                      | Inr (es, p, s) \<Rightarrow> entries_weight es)")
     (auto simp: entries_weight_less walk_weight_less entries_weight_rest)

section \<open>File names (discover.js)\<close>

text \<open>
  \<^verbatim>\<open>path.basename(p)\<close> on a POSIX path: the last segment, trailing separators
  dropped.
\<close>

definition basename :: "string \<Rightarrow> string" where
  "basename p =
     rev (takeWhile (\<lambda>c. c \<noteq> CHR ''/'') (dropWhile (\<lambda>c. c = CHR ''/'') (rev p)))"

definition endsWith :: "string \<Rightarrow> string \<Rightarrow> bool" where
  "endsWith s suffix =
     (length suffix \<le> length s \<and> drop (length s - length suffix) s = suffix)"

text \<open>
  The three patterns are anchored literal suffixes: \<^verbatim>\<open>/\.inp\.json$/\<close>,
  \<^verbatim>\<open>/\.ref\.inp\.json$/\<close> and \<^verbatim>\<open>/\.theme\.inp\.json$/\<close>.  Without the flag \<^verbatim>\<open>m\<close>
  the anchor matches at the end of the input only, so \<^verbatim>\<open>PATTERN.test(name)\<close>
  holds exactly when the name ends with the suffix.
\<close>

definition OUTPUT_PATTERN :: string where
  "OUTPUT_PATTERN = ''.inp.json''"

definition REFERENCE_PATTERN :: string where
  "REFERENCE_PATTERN = ''.ref.inp.json''"

definition THEME_PATTERN :: string where
  "THEME_PATTERN = ''.theme.inp.json''"

definition test :: "string \<Rightarrow> string \<Rightarrow> bool" where
  "test pattern fileName = endsWith fileName pattern"

text \<open>
  \<^verbatim>\<open>s.replace(PATTERN, "")\<close> for an anchored literal suffix: the suffix is cut
  off where it matches, and the string is returned as it is otherwise.
\<close>

definition stripSuffix :: "string \<Rightarrow> string \<Rightarrow> string" where
  "stripSuffix suffix s =
     (if endsWith s suffix then take (length s - length suffix) s else s)"

text \<open>
  \<^verbatim>\<open>getOutputFileName\<close> replaces \<^verbatim>\<open>/\.(theme\.)?inp\.json$/\<close>.  The leftmost match
  wins: where the name ends with \<^verbatim>\<open>.theme.inp.json\<close> the match starts at that
  suffix, otherwise at \<^verbatim>\<open>.inp.json\<close> if the name ends with it.
\<close>

definition getOutputFileName :: "string \<Rightarrow> string" where
  "getOutputFileName inputPath =
     (let base = basename inputPath;
          name = (if endsWith base THEME_PATTERN then stripSuffix THEME_PATTERN base
                  else stripSuffix OUTPUT_PATTERN base)
      in name @ ''.vars.gen.css'')"

definition getThemeName :: "string \<Rightarrow> string" where
  "getThemeName inputPath = stripSuffix THEME_PATTERN (basename inputPath)"

definition isThemeFile :: "string \<Rightarrow> bool" where
  "isThemeFile inputPath = test THEME_PATTERN (basename inputPath)"

section \<open>Discovery (discover.js)\<close>

text \<open>
  What \<^verbatim>\<open>fs.readdirSync(dir, { withFileTypes: true })\<close> lists: a regular file, a
  directory with its own listing, or an entry that is neither (a symbolic link,
  a socket).  Every listed directory is taken to be readable.
\<close>

datatype dirent =
    File string
  | Directory string "dirent list"
  | Other string

text \<open>
  \<^verbatim>\<open>findFilesRecursive(dir, files = [])\<close> over the listing of \<^verbatim>\<open>dir\<close>.
  \<^verbatim>\<open>path.join\<close> is a parameter.
\<close>

fun findFilesRecursive ::
  "(string \<Rightarrow> string \<Rightarrow> string) \<Rightarrow> string \<Rightarrow> dirent list \<Rightarrow> string list \<Rightarrow> string list"
where
  "findFilesRecursive pjoin dir [] files = files"
| "findFilesRecursive pjoin dir (File name # entries) files =
     findFilesRecursive pjoin dir entries (files @ [pjoin dir name])"
| "findFilesRecursive pjoin dir (Directory name sub # entries) files =
     findFilesRecursive pjoin dir entries
       (findFilesRecursive pjoin (pjoin dir name) sub files)"
| "findFilesRecursive pjoin dir (Other name # entries) files =
     findFilesRecursive pjoin dir entries files"

record discovered_files =
  outputFiles :: "string list"
  themeFiles :: "string list"
  referenceFiles :: "string list"
  allFiles :: "string list"

text \<open>
  The categorising loop of \<^verbatim>\<open>discoverTokenFiles\<close>; the accumulator holds the
  reference, theme and output lists, in this order.
\<close>

fun categorize ::
  "string list \<Rightarrow> string list \<times> string list \<times> string list
     \<Rightarrow> string list \<times> string list \<times> string list"
where
  "categorize [] acc = acc"
| "categorize (file # rest) (refs, themes, outs) =
     (let fileName = basename file in
      if test REFERENCE_PATTERN fileName then categorize rest (refs @ [file], themes, outs)
      else if test THEME_PATTERN fileName then categorize rest (refs, themes @ [file], outs)
      else if test OUTPUT_PATTERN fileName then categorize rest (refs, themes, outs @ [file])
      else categorize rest (refs, themes, outs))"

definition noTokenFilesMessage :: string where
  "noTokenFilesMessage =
     ''No token files found. Token files must have .inp.json, .theme.inp.json, or .ref.inp.json extension.''"

text \<open>
  \<^verbatim>\<open>discoverTokenFiles(extractedDir)\<close>.  The third argument is what the file
  system holds at \<^verbatim>\<open>extractedDir\<close>: nothing, or an entry.  \<^verbatim>\<open>readdirSync\<close> fails
  on an entry that is not a directory.
\<close>

definition discoverTokenFiles ::
  "(string \<Rightarrow> string \<Rightarrow> string) \<Rightarrow> string \<Rightarrow> dirent option \<Rightarrow> error + discovered_files"
where
  "discoverTokenFiles pjoin extractedDir rootEntry =
     (case rootEntry of
        None \<Rightarrow> Inl (Error (''Directory does not exist: '' @ extractedDir))
      | Some (Directory name entries) \<Rightarrow>
          (let allFoundFiles = findFilesRecursive pjoin extractedDir entries [] in
           case categorize allFoundFiles ([], [], []) of
             (refs, themes, outs) \<Rightarrow>
               if length refs + length themes + length outs = 0
               then Inl (Error noTokenFilesMessage)
               else Inr \<lparr> outputFiles = outs, themeFiles = themes, referenceFiles = refs,
                          allFiles = refs @ themes @ outs \<rparr>)
      | Some _ \<Rightarrow> Inl (SystemError ''ENOTDIR: not a directory, scandir''))"

section \<open>The name transform (transform.ts)\<close>

text \<open>
  The segments of \<^verbatim>\<open>token.path\<close> are JavaScript strings: sequences of 16-bit
  code units, of any length and any content, surrogates paired or not.
\<close>

type_synonym code_unit = "16 word"
type_synonym ustring = "16 word list"

definition codeUnit :: "nat \<Rightarrow> code_unit" where
  "codeUnit n = of_nat n"

text \<open>
  \<^verbatim>\<open>String.prototype.toLowerCase\<close> is defined by ECMA-262 in three steps:
  \<^verbatim>\<open>StringToCodePoints\<close>, which reads a lead surrogate followed by a trail
  surrogate as one code point and every other code unit as the code point of
  its own number; the Unicode default case conversion \<^verbatim>\<open>toLowercase\<close>, which
  replaces every code point by its lowercase mapping, a sequence of code
  points that may depend on the code points before and after it (the capital
  sigma, by the condition \<^verbatim>\<open>Final_Sigma\<close>); and \<^verbatim>\<open>CodePointsToString\<close>, the
  UTF-16 encoding.  The mapping itself is the content of the Unicode character
  database (\<^verbatim>\<open>UnicodeData.txt\<close> and \<^verbatim>\<open>SpecialCasing.txt\<close>) of the engine that
  runs the program; it is a parameter here, a function of the code points
  before, the code point itself and the code points after.
\<close>

type_synonym lowercase_mapping = "nat list \<Rightarrow> nat \<Rightarrow> nat list \<Rightarrow> nat list"

definition isLeadSurrogate :: "code_unit \<Rightarrow> bool" where
  "isLeadSurrogate u = (0xD800 \<le> unat u \<and> unat u \<le> 0xDBFF)"

definition isTrailSurrogate :: "code_unit \<Rightarrow> bool" where
  "isTrailSurrogate u = (0xDC00 \<le> unat u \<and> unat u \<le> 0xDFFF)"

fun stringToCodePoints :: "ustring \<Rightarrow> nat list" where
  "stringToCodePoints [] = []"
| "stringToCodePoints [u] = [unat u]"
| "stringToCodePoints (u # v # rest) =
     (if isLeadSurrogate u \<and> isTrailSurrogate v
      then (0x10000 + (unat u - 0xD800) * 0x400 + (unat v - 0xDC00)) # stringToCodePoints rest
      else unat u # stringToCodePoints (v # rest))"

definition utf16EncodeCodePoint :: "nat \<Rightarrow> ustring" where
  "utf16EncodeCodePoint cp =
     (if cp \<le> 0xFFFF then [codeUnit cp]
      else [codeUnit (0xD800 + (cp - 0x10000) div 0x400),
            codeUnit (0xDC00 + (cp - 0x10000) mod 0x400)])"

definition codePointsToString :: "nat list \<Rightarrow> ustring" where
  "codePointsToString cps = concat (map utf16EncodeCodePoint cps)"

fun toLowercaseFrom :: "lowercase_mapping \<Rightarrow> nat list \<Rightarrow> nat list \<Rightarrow> nat list" where
  "toLowercaseFrom tbl before [] = []"
| "toLowercaseFrom tbl before (c # after) =
     tbl before c after @ toLowercaseFrom tbl (before @ [c]) after"

definition toLowerCase :: "lowercase_mapping \<Rightarrow> ustring \<Rightarrow> ustring" where
  "toLowerCase tbl s = codePointsToString (toLowercaseFrom tbl [] (stringToCodePoints s))"

text \<open>
  The class \<^verbatim>\<open>\s\<close> of a regular expression without the \<^verbatim>\<open>u\<close> flag, which matches
  code unit by code unit: the \<^verbatim>\<open>WhiteSpace\<close> and \<^verbatim>\<open>LineTerminator\<close> code points
  of ECMA-262, that is U+0009 to U+000D, U+0020, U+00A0, U+FEFF, U+2028, U+2029
  and the space separators U+1680, U+2000 to U+200A, U+202F, U+205F, U+3000.
\<close>

definition isWhitespace :: "code_unit \<Rightarrow> bool" where
  "isWhitespace u =
     (let n = unat u in
      (0x09 \<le> n \<and> n \<le> 0x0D) \<or> n = 0x20 \<or> n = 0xA0 \<or> n = 0x1680
      \<or> (0x2000 \<le> n \<and> n \<le> 0x200A) \<or> n = 0x2028 \<or> n = 0x2029 \<or> n = 0x202F
      \<or> n = 0x205F \<or> n = 0x3000 \<or> n = 0xFEFF)"

definition dash :: code_unit where
  "dash = codeUnit 0x2D"

text \<open>\<^verbatim>\<open>s.replace(/\s+/g, "-")\<close>: every maximal run of whitespace becomes one dash.\<close>

function replaceWhitespaceRuns :: "ustring \<Rightarrow> ustring" where
  "replaceWhitespaceRuns [] = []"
| "replaceWhitespaceRuns (c # cs) =
     (if isWhitespace c then dash # replaceWhitespaceRuns (dropWhile isWhitespace cs)
      else c # replaceWhitespaceRuns cs)"
  by pat_completeness auto
termination
  by (relation "measure length") (auto simp: length_dropWhile_le less_Suc_eq_le)

text \<open>The body of the \<^verbatim>\<open>map\<close> over the path segments; \<^verbatim>\<open>String(segment)\<close> is the
  segment itself.\<close>

definition normalizeSegment :: "lowercase_mapping \<Rightarrow> ustring \<Rightarrow> ustring" where
  "normalizeSegment tbl segment = replaceWhitespaceRuns (toLowerCase tbl segment)"

definition CUSTOM_NAME_TRANSFORM :: string where
  "CUSTOM_NAME_TRANSFORM = ''name/kebab-with-spaces''"

text \<open>The \<^verbatim>\<open>transform\<close> function registered under \<open>CUSTOM_NAME_TRANSFORM\<close>, applied
  to \<^verbatim>\<open>token.path\<close>.\<close>

definition customNameTransform :: "lowercase_mapping \<Rightarrow> ustring list \<Rightarrow> ustring" where
  "customNameTransform tbl pathSegments = join [dash] (map (normalizeSegment tbl) pathSegments)"

section \<open>The build (transform.ts and dist/transform.js)\<close>

text \<open>
  The configuration handed to \<^verbatim>\<open>new StyleDictionary({...})\<close>: the source list, the
  one platform \<^verbatim>\<open>css\<close> and its one file.  The field \<open>filter_fn\<close> is the
  \<^verbatim>\<open>filter\<close> of that file, applied to \<^verbatim>\<open>token.path\<close>.
\<close>

record sd_config =
  source :: "string list"
  transformGroup :: string
  transforms :: "string list"
  buildPath :: string
  destination :: string
  format :: string
  outputReferences :: bool
  selector :: string
  filter_fn :: "string list \<Rightarrow> bool"

text \<open>
  The library functions of the run, over a world \<open>'w\<close> (the file system and the
  engine's registry): \<^verbatim>\<open>path.join\<close>, \<^verbatim>\<open>path.resolve\<close>, \<^verbatim>\<open>os.homedir()\<close>,
  \<^verbatim>\<open>fs.existsSync\<close>, \<^verbatim>\<open>fs.mkdirSync\<close> with \<^verbatim>\<open>recursive\<close>, \<^verbatim>\<open>JSON.parse\<close> of
  \<^verbatim>\<open>fs.readFileSync\<close>, the lowercase mapping of the engine's Unicode tables,
  \<^verbatim>\<open>StyleDictionary.registerTransform\<close>, and the engine
  invocation \<^verbatim>\<open>new StyleDictionary(config)\<close> followed by
  \<^verbatim>\<open>buildAllPlatforms()\<close>, which returns the exception it throws, if any.
\<close>

record 'w node =
  path_join :: "string \<Rightarrow> string \<Rightarrow> string"
  path_resolve :: "string \<Rightarrow> string"
  os_homedir :: string
  fs_existsSync :: "'w \<Rightarrow> string \<Rightarrow> bool"
  fs_mkdirSync :: "'w \<Rightarrow> string \<Rightarrow> error + 'w"
  readJSON :: "'w \<Rightarrow> string \<Rightarrow> error + json"
  unicode_toLowercase :: lowercase_mapping
  sd_registerTransform :: "string \<Rightarrow> (ustring list \<Rightarrow> ustring) \<Rightarrow> 'w \<Rightarrow> 'w"
  sd_build :: "sd_config \<Rightarrow> 'w \<Rightarrow> error option \<times> 'w"

text \<open>
  The state of a run: the world, and the log of the engine invocations made so
  far, each with the input file it was made for.  Console logging has no
  effect on any result and is left out.
\<close>

record 'w state =
  world :: 'w
  engineLog :: "(string \<times> sd_config) list"

record transform_result =
  outputPath :: string
  tokenCount :: nat
  inputPath :: string

record processing_stats =
  tokensProcessed :: nat
  tokensSkipped :: nat
  outputTokenCounts :: "string \<rightharpoonup> nat"

definition resolveOutputDir :: "'w node \<Rightarrow> string \<Rightarrow> string" where
  "resolveOutputDir node outputDir =
     (if take 1 outputDir = ''~'' then path_join node (os_homedir node) (drop 1 outputDir)
      else path_resolve node outputDir)"

text \<open>The object literal of \<^verbatim>\<open>processTokenFile\<close>.\<close>

definition styleDictionaryConfig ::
  "string list \<Rightarrow> string \<Rightarrow> string \<Rightarrow> string \<Rightarrow> string set \<Rightarrow> sd_config" where
  "styleDictionaryConfig allSourceFiles outputDir outputFileName sel tokenPathsInFile =
     \<lparr> source = allSourceFiles,
       transformGroup = ''css'',
       transforms = [CUSTOM_NAME_TRANSFORM, ''size/px'', ''color/css''],
       buildPath = (if endsWith outputDir ''/'' then outputDir else outputDir @ ''/''),
       destination = outputFileName,
       format = ''css/variables'',
       outputReferences = True,
       selector = sel,
       filter_fn = (\<lambda>tokenPath. join ''.'' tokenPath \<in> tokenPathsInFile) \<rparr>"

text \<open>The engine invocation, logged.\<close>

definition buildAllPlatforms ::
  "'w node \<Rightarrow> string \<Rightarrow> sd_config \<Rightarrow> 'w state \<Rightarrow> error option \<times> 'w state" where
  "buildAllPlatforms node inputFile sd st =
     (case sd_build node sd (world st) of
        (thrown, w') \<Rightarrow>
          (thrown, \<lparr> world = w', engineLog = engineLog st @ [(inputFile, sd)] \<rparr>))"

text \<open>\<^verbatim>\<open>processTokenFile\<close> of transform.ts.\<close>

definition processTokenFile ::
  "'w node \<Rightarrow> string \<Rightarrow> string list \<Rightarrow> string \<Rightarrow> string \<Rightarrow> 'w state
     \<Rightarrow> (error + transform_result) \<times> 'w state"
where
  "processTokenFile node inputFile allSourceFiles outputDir sel st =
     (let outputFileName = getOutputFileName inputFile;
          outPath = path_join node outputDir outputFileName;
          inputFileName = basename inputFile
      in case readJSON node (world st) inputFile of
           Inl e \<Rightarrow> (Inl e, st)
         | Inr inputContent \<Rightarrow>
       (case validateDTCGFormat inputContent inputFileName of
           Inl e \<Rightarrow> (Inl e, st)
         | Inr u \<Rightarrow>
       (case countTokens inputContent 0 of
           Inl e \<Rightarrow> (Inl e, st)
         | Inr count \<Rightarrow>
       (case extractTokenPaths inputContent [] {} of
           Inl e \<Rightarrow> (Inl e, st)
         | Inr tokenPathsInFile \<Rightarrow>
       (case buildAllPlatforms node inputFile
               (styleDictionaryConfig allSourceFiles outputDir outputFileName sel
                  tokenPathsInFile) st of
           (Some e, st') \<Rightarrow> (Inl e, st')
         | (None, st') \<Rightarrow>
             (Inr \<lparr> outputPath = outPath, tokenCount = count, inputPath = inputFile \<rparr>,
              st'))))))"

text \<open>\<^verbatim>\<open>processTokenFile\<close> of dist/transform.js, whose \<^verbatim>\<open>countTokens\<close> and
  \<^verbatim>\<open>extractTokenPaths\<close> are those of transform.ts.\<close>

definition processTokenFile_dist ::
  "'w node \<Rightarrow> string \<Rightarrow> string list \<Rightarrow> string \<Rightarrow> string \<Rightarrow> 'w state
     \<Rightarrow> (error + transform_result) \<times> 'w state"
where
  "processTokenFile_dist node inputFile allSourceFiles outputDir sel st =
     (let outputFileName = getOutputFileName inputFile;
          outPath = path_join node outputDir outputFileName
      in case readJSON node (world st) inputFile of
           Inl e \<Rightarrow> (Inl e, st)
         | Inr inputContent \<Rightarrow>
       (case countTokens inputContent 0 of
           Inl e \<Rightarrow> (Inl e, st)
         | Inr count \<Rightarrow>
       (case extractTokenPaths inputContent [] {} of
           Inl e \<Rightarrow> (Inl e, st)
         | Inr tokenPathsInFile \<Rightarrow>
       (case buildAllPlatforms node inputFile
               (styleDictionaryConfig allSourceFiles outputDir outputFileName sel
                  tokenPathsInFile) st of
           (Some e, st') \<Rightarrow> (Inl e, st')
         | (None, st') \<Rightarrow>
             (Inr \<lparr> outputPath = outPath, tokenCount = count, inputPath = inputFile \<rparr>,
              st')))))"

text \<open>The selector of the second loop of \<^verbatim>\<open>transformTokens\<close>.\<close>

definition themeSelector :: "string \<Rightarrow> string" where
  "themeSelector inputFile =
     ''[data-mantine-color-scheme='' @ [CHR 0x27] @ getThemeName inputFile @ [CHR 0x27] @ '']''"

text \<open>
  The two \<^verbatim>\<open>for\<close> loops of \<^verbatim>\<open>transformTokens\<close> have one body up to the selector,
  which is the first argument here.  The \<^verbatim>\<open>catch\<close> branch counts the file as
  skipped and goes on.
\<close>

fun processFiles ::
  "'w node \<Rightarrow> (string \<Rightarrow> string) \<Rightarrow> string list \<Rightarrow> string list \<Rightarrow> string
     \<Rightarrow> transform_result list \<times> processing_stats \<times> 'w state
     \<Rightarrow> transform_result list \<times> processing_stats \<times> 'w state"
where
  "processFiles node selectorOf [] allSourceFiles outputDir acc = acc"
| "processFiles node selectorOf (inputFile # rest) allSourceFiles outputDir (results, stats, st) =
     (case processTokenFile node inputFile allSourceFiles outputDir (selectorOf inputFile) st of
        (Inr result, st') \<Rightarrow>
          processFiles node selectorOf rest allSourceFiles outputDir
            (results @ [result],
             stats \<lparr> tokensProcessed := tokensProcessed stats + tokenCount result,
                     outputTokenCounts :=
                       (outputTokenCounts stats)(outputPath result \<mapsto> tokenCount result) \<rparr>,
             st')
      | (Inl e, st') \<Rightarrow>
          processFiles node selectorOf rest allSourceFiles outputDir
            (results, stats \<lparr> tokensSkipped := tokensSkipped stats + 1 \<rparr>, st'))"

text \<open>
  \<^verbatim>\<open>transformTokens(discoveredFiles, outputDir)\<close>.  Outside the two loops only
  \<^verbatim>\<open>fs.mkdirSync\<close> can throw.
\<close>

definition transformTokens ::
  "'w node \<Rightarrow> discovered_files \<Rightarrow> string \<Rightarrow> 'w state
     \<Rightarrow> (error + transform_result list \<times> processing_stats) \<times> 'w state"
where
  "transformTokens node discoveredFiles outputDir st0 =
     (let st1 = st0 \<lparr> world :=
                  sd_registerTransform node CUSTOM_NAME_TRANSFORM
                    (customNameTransform (unicode_toLowercase node)) (world st0) \<rparr>;
          resolvedOutputDir = resolveOutputDir node outputDir
      in case (if fs_existsSync node (world st1) resolvedOutputDir then Inr (world st1)
               else fs_mkdirSync node (world st1) resolvedOutputDir) of
           Inl e \<Rightarrow> (Inl e, st1)
         | Inr w2 \<Rightarrow>
       (let stats0 = \<lparr> tokensProcessed = 0, tokensSkipped = 0, outputTokenCounts = Map.empty \<rparr>;
            acc1 = processFiles node (\<lambda>inputFile. '':root'') (outputFiles discoveredFiles)
                     (allFiles discoveredFiles) resolvedOutputDir
                     ([], stats0, st1 \<lparr> world := w2 \<rparr>)
        in case processFiles node themeSelector (themeFiles discoveredFiles)
                  (allFiles discoveredFiles) resolvedOutputDir acc1 of
             (results, stats, st') \<Rightarrow> (Inr (results, stats), st')))"

section \<open>Declarative views of the walks\<close>

lemma length_indexKeys [simp]: "length (indexKeys n) = n"
  by (simp add: indexKeys_def)

lemma isObject_entries: "isObject v \<Longrightarrow> \<exists>es. objectEntries v = Inr es"
  by (cases v) auto

text \<open>The entries of a value, none where \<^verbatim>\<open>Object.entries\<close> throws.\<close>

definition entriesOf :: "json \<Rightarrow> (string \<times> json) list" where
  "entriesOf t = (case objectEntries t of Inl e \<Rightarrow> [] | Inr es \<Rightarrow> es)"

lemma entriesOf_weight: "isObject v \<Longrightarrow> entries_weight (entriesOf v) < walk_weight v"
  using isObject_entries [of v] entries_weight_less [of v]
  by (auto simp: entriesOf_def)

text \<open>
  The number of tokens a walk finds at a value it visits: an object with a
  \<^verbatim>\<open>$value\<close> property is one token and is not entered, any other object and any
  array is entered, a primitive or \<^verbatim>\<open>null\<close> holds none.
\<close>

fun nodeTokens :: "json \<Rightarrow> nat" where
  "nodeTokens (JObj kvs) =
     (if ''$value'' \<in> fst ` set kvs then 1 else sum_list (map (\<lambda>kv. nodeTokens (snd kv)) kvs))"
| "nodeTokens (JArr xs) = sum_list (map nodeTokens xs)"
| "nodeTokens _ = 0"

text \<open>
  The same count with the words of the specification: an array is neither
  counted nor descended into.  \<open>specCount\<close> walks the children of the document.
\<close>

fun specCountNode :: "json \<Rightarrow> nat" where
  "specCountNode (JObj kvs) =
     (if ''$value'' \<in> fst ` set kvs then 1
      else sum_list (map (\<lambda>kv. specCountNode (snd kv)) kvs))"
| "specCountNode _ = 0"

definition specCount :: "json \<Rightarrow> nat" where
  "specCount doc =
     (case doc of JObj kvs \<Rightarrow> sum_list (map (\<lambda>kv. specCountNode (snd kv)) kvs) | _ \<Rightarrow> 0)"

text \<open>The paths of the tokens below an entry list, as lists of segments, in the
  order of the walk.\<close>

function tokenPathsIn :: "(string \<times> json) list \<Rightarrow> string list list" where
  "tokenPathsIn [] = []"
| "tokenPathsIn ((k, v) # rest) =
     (if isObject v then
        (if inOp ''$value'' v then [[k]] else map ((#) k) (tokenPathsIn (entriesOf v)))
      else []) @ tokenPathsIn rest"
  by pat_completeness auto
termination
proof (relation "measure entries_weight")
  fix k v and rest :: "(string \<times> json) list"
  assume "isObject v"
  then show "(entriesOf v, (k, v) # rest) \<in> measure entries_weight"
    using entriesOf_weight [of v] walk_weight_less [of v k rest] by simp
qed (auto simp: entries_weight_rest)





text \<open>
  The value, or a value inside it, is an object with a \<^verbatim>\<open>value\<close> property and no
  \<^verbatim>\<open>$value\<close> property.  \<open>containsLegacyObject\<close> is the wording of the
  specification (anywhere in the tree of the document); \<open>legacyBelowRoot\<close> looks
  at the values below the document only.
\<close>

fun legacyNode :: "json \<Rightarrow> bool" where
  "legacyNode (JObj kvs) =
     ((''value'' \<in> fst ` set kvs \<and> ''$value'' \<notin> fst ` set kvs)
      \<or> list_ex (\<lambda>kv. legacyNode (snd kv)) kvs)"
| "legacyNode (JArr xs) = list_ex legacyNode xs"
| "legacyNode _ = False"

definition containsLegacyObject :: "json \<Rightarrow> bool" where
  "containsLegacyObject doc = legacyNode doc"

definition legacyBelowRoot :: "json \<Rightarrow> bool" where
  "legacyBelowRoot doc = list_ex (\<lambda>kv. legacyNode (snd kv)) (entriesOf doc)"

section \<open>Views of discovery and of the run\<close>

text \<open>What one call of \<open>processTokenFile\<close> adds to the log.\<close>

definition logged ::
  "string list \<Rightarrow> (string \<Rightarrow> string) \<Rightarrow> string set \<Rightarrow> (string \<times> sd_config) list \<Rightarrow> bool" where
  "logged allSourceFiles selectorOf files new =
     list_all (\<lambda>entry. fst entry \<in> files
                \<and> source (snd entry) = allSourceFiles
                \<and> selector (snd entry) = selectorOf (fst entry)
                \<and> destination (snd entry) = getOutputFileName (fst entry)) new"

text \<open>The outcome of every iteration of a loop of \<open>transformTokens\<close>, in order,
  and the state the loop ends in.\<close>

fun outcomes ::
  "'w node \<Rightarrow> (string \<Rightarrow> string) \<Rightarrow> string list \<Rightarrow> string list \<Rightarrow> string \<Rightarrow> 'w state
     \<Rightarrow> (error + transform_result) list" where
  "outcomes node selectorOf [] allSourceFiles outputDir st = []"
| "outcomes node selectorOf (inputFile # rest) allSourceFiles outputDir st =
     (case processTokenFile node inputFile allSourceFiles outputDir (selectorOf inputFile) st of
        (r, st') \<Rightarrow> r # outcomes node selectorOf rest allSourceFiles outputDir st')"

fun finalState ::
  "'w node \<Rightarrow> (string \<Rightarrow> string) \<Rightarrow> string list \<Rightarrow> string list \<Rightarrow> string \<Rightarrow> 'w state
     \<Rightarrow> 'w state" where
  "finalState node selectorOf [] allSourceFiles outputDir st = st"
| "finalState node selectorOf (inputFile # rest) allSourceFiles outputDir st =
     finalState node selectorOf rest allSourceFiles outputDir
       (snd (processTokenFile node inputFile allSourceFiles outputDir (selectorOf inputFile) st))"

definition successes :: "(error + transform_result) list \<Rightarrow> transform_result list" where
  "successes os = map projr (filter (\<lambda>r. \<not> isl r) os)"

definition failures :: "(error + transform_result) list \<Rightarrow> nat" where
  "failures os = length (filter isl os)"

datatype bucket = Reference | Theme | Output

text \<open>The bucket of a file, most specific suffix first.\<close>

definition bucketOf :: "string \<Rightarrow> bucket option" where
  "bucketOf file =
     (if endsWith (basename file) ''.ref.inp.json'' then Some Reference
      else if endsWith (basename file) ''.theme.inp.json'' then Some Theme
      else if endsWith (basename file) ''.inp.json'' then Some Output
      else None)"

text \<open>Every regular file found under the scanned root.\<close>

definition foundFiles ::
  "(string \<Rightarrow> string \<Rightarrow> string) \<Rightarrow> string \<Rightarrow> dirent option \<Rightarrow> string list" where
  "foundFiles pjoin extractedDir rootEntry =
     (case rootEntry of
        Some (Directory name entries) \<Rightarrow> findFilesRecursive pjoin extractedDir entries []
      | _ \<Rightarrow> [])"

text \<open>The name of the file matches one of the three patterns of discover.js.\<close>

definition isTokenFile :: "string \<Rightarrow> bool" where
  "isTokenFile file =
     (test REFERENCE_PATTERN (basename file) \<or> test THEME_PATTERN (basename file)
      \<or> test OUTPUT_PATTERN (basename file))"

text \<open>The result of \<open>processTokenFile\<close> once the document is read, validated and
  walked: the engine is invoked, and its exception, if any, is the result.\<close>

definition built ::
  "'w node \<Rightarrow> string \<Rightarrow> string list \<Rightarrow> string \<Rightarrow> string \<Rightarrow> 'w state \<Rightarrow> nat \<Rightarrow> string set
     \<Rightarrow> (error + transform_result) \<times> 'w state" where
  "built node f all dir sel st c S =
     (let cfg = styleDictionaryConfig all dir (getOutputFileName f) sel S in
      ((case fst (sd_build node cfg (world st)) of
          Some e \<Rightarrow> Inl e
        | None \<Rightarrow> Inr \<lparr> outputPath = path_join node dir (getOutputFileName f),
                       tokenCount = c, inputPath = f \<rparr>),
       \<lparr> world = snd (sd_build node cfg (world st)),
         engineLog = engineLog st @ [(f, cfg)] \<rparr>))"

text \<open>The outcome of every file of a run, the output files first, and nothing
  where the output directory cannot be made.\<close>

definition runOutcomes ::
  "'w node \<Rightarrow> discovered_files \<Rightarrow> string \<Rightarrow> 'w state \<Rightarrow> (error + transform_result) list" where
  "runOutcomes node df outputDir st0 =
     (let st1 = st0 \<lparr> world :=
                  sd_registerTransform node CUSTOM_NAME_TRANSFORM
                    (customNameTransform (unicode_toLowercase node)) (world st0) \<rparr>;
          dir = resolveOutputDir node outputDir
      in case (if fs_existsSync node (world st1) dir then Inr (world st1)
               else fs_mkdirSync node (world st1) dir) of
           Inl e \<Rightarrow> []
         | Inr w2 \<Rightarrow>
             outcomes node (\<lambda>f. '':root'') (outputFiles df) (allFiles df) dir
               (st1 \<lparr> world := w2 \<rparr>)
             @ outcomes node themeSelector (themeFiles df) (allFiles df) dir
                 (finalState node (\<lambda>f. '':root'') (outputFiles df) (allFiles df) dir
                    (st1 \<lparr> world := w2 \<rparr>)))"

text \<open>The file is read and its document passes validation, so that
  \<open>processTokenFile\<close> reaches the engine invocation.\<close>

definition reachesEngine :: "'w node \<Rightarrow> 'w \<Rightarrow> string \<Rightarrow> bool" where
  "reachesEngine node w f =
     (case readJSON node w f of
        Inl e \<Rightarrow> False
      | Inr doc \<Rightarrow>
          (case validateDTCGFormat doc (basename f) of Inl e \<Rightarrow> False | Inr u \<Rightarrow> True))"

text \<open>The configuration the engine is to be invoked with for a file, if any:
  the source list is the whole list, the filter is membership of the dot-join
  in the path set of the document of this file.\<close>

definition engineCall ::
  "'w node \<Rightarrow> string \<Rightarrow> string list \<Rightarrow> string \<Rightarrow> string \<Rightarrow> 'w \<Rightarrow> sd_config option" where
  "engineCall node f all dir sel w =
     (case readJSON node w f of
        Inl e \<Rightarrow> None
      | Inr doc \<Rightarrow>
          (case validateDTCGFormat doc (basename f) of
             Inl e \<Rightarrow> None
           | Inr u \<Rightarrow>
               (case extractTokenPaths doc [] {} of
                  Inl e \<Rightarrow> None
                | Inr S \<Rightarrow>
                    Some (styleDictionaryConfig all dir (getOutputFileName f) sel S))))"

text \<open>The invocations due for a list of files, in order, one for each file that
  has one, each in the world the invocations before it have left; and the
  world after the last.\<close>

fun engineCalls ::
  "'w node \<Rightarrow> (string \<Rightarrow> string) \<Rightarrow> string list \<Rightarrow> string list \<Rightarrow> string \<Rightarrow> 'w
     \<Rightarrow> (string \<times> sd_config) list \<times> 'w" where
  "engineCalls node selectorOf [] all dir w = ([], w)"
| "engineCalls node selectorOf (f # rest) all dir w =
     (case engineCall node f all dir (selectorOf f) w of
        None \<Rightarrow> engineCalls node selectorOf rest all dir w
      | Some cfg \<Rightarrow>
          (case engineCalls node selectorOf rest all dir (snd (sd_build node cfg w)) of
             (calls, w') \<Rightarrow> ((f, cfg) # calls, w')))"

text \<open>The invocations due for a run: those of the output files, then those of
  the theme files, and none where the output directory cannot be made.\<close>

definition runCalls ::
  "'w node \<Rightarrow> discovered_files \<Rightarrow> string \<Rightarrow> 'w state \<Rightarrow> (string \<times> sd_config) list" where
  "runCalls node df outputDir st0 =
     (let w1 = sd_registerTransform node CUSTOM_NAME_TRANSFORM
                 (customNameTransform (unicode_toLowercase node)) (world st0);
          dir = resolveOutputDir node outputDir
      in case (if fs_existsSync node w1 dir then Inr w1 else fs_mkdirSync node w1 dir) of
           Inl e \<Rightarrow> []
         | Inr w2 \<Rightarrow>
             (case engineCalls node (\<lambda>f. '':root'') (outputFiles df) (allFiles df) dir w2 of
                (calls, w3) \<Rightarrow>
                  calls @ fst (engineCalls node themeSelector (themeFiles df) (allFiles df)
                                 dir w3)))"

text \<open>Registering a transform, making a directory and building leave what the
  files hold.\<close>

definition stableReads :: "'w node \<Rightarrow> bool" where
  "stableReads node =
     ((\<forall>name transform w p.
          readJSON node (sd_registerTransform node name transform w) p = readJSON node w p)
      \<and> (\<forall>w d w' p. fs_mkdirSync node w d = Inr w' \<longrightarrow> readJSON node w' p = readJSON node w p)
      \<and> (\<forall>cfg w p. readJSON node (snd (sd_build node cfg w)) p = readJSON node w p))"

text \<open>A log entry for a file of the world: its source list is the given one, its
  destination is the output name of the file, and its filter accepts a token
  path if and only if the dot-join is in the path set extracted from the
  document of that file.\<close>

definition ownCall :: "'w node \<Rightarrow> 'w \<Rightarrow> string list \<Rightarrow> string \<times> sd_config \<Rightarrow> bool" where
  "ownCall node w all entry =
     (source (snd entry) = all
      \<and> destination (snd entry) = getOutputFileName (fst entry)
      \<and> (\<exists>doc S. readJSON node w (fst entry) = Inr doc
            \<and> extractTokenPaths doc [] {} = Inr S
            \<and> (\<forall>tokenPath. filter_fn (snd entry) tokenPath
                  \<longleftrightarrow> join ''.'' tokenPath \<in> S)))"

section \<open>Views of the name transform\<close>

definition isSurrogate :: "code_unit \<Rightarrow> bool" where
  "isSurrogate u = (isLeadSurrogate u \<or> isTrailSurrogate u)"

definition isSurrogateCP :: "nat \<Rightarrow> bool" where
  "isSurrogateCP c = (0xD800 \<le> c \<and> c \<le> 0xDFFF)"

definition isLeadCP :: "nat \<Rightarrow> bool" where
  "isLeadCP c = (0xD800 \<le> c \<and> c \<le> 0xDBFF)"

definition isTrailCP :: "nat \<Rightarrow> bool" where
  "isTrailCP c = (0xDC00 \<le> c \<and> c \<le> 0xDFFF)"

text \<open>Code points as \<open>stringToCodePoints\<close> yields them: below 0x110000, and no lead
  surrogate directly before a trail surrogate.\<close>

fun unpaired :: "nat list \<Rightarrow> bool" where
  "unpaired [] = True"
| "unpaired [c] = (c \<le> 0x10FFFF)"
| "unpaired (c # d # rest) =
     (c \<le> 0x10FFFF \<and> \<not> (isLeadCP c \<and> isTrailCP d) \<and> unpaired (d # rest))"

text \<open>A code point that no context lowers to anything but itself.\<close>

definition unchanged :: "lowercase_mapping \<Rightarrow> nat \<Rightarrow> bool" where
  "unchanged tbl d = (\<forall>b a. tbl b d a = [d])"

text \<open>
  What is used of the Unicode tables.  No lowercase mapping is empty.  A code
  point of a lowercase mapping is unchanged: the mappings consist of lowercase
  letters and combining marks.  A surrogate code point, which is unassigned,
  is mapped to itself, and the mapping of any other code point holds code
  points of the code space only, none of them a surrogate.  On ASCII, the
  letters A to Z are moved up by 32 and every other code point is kept.
\<close>

definition lowercaseMappings :: "lowercase_mapping \<Rightarrow> bool" where
  "lowercaseMappings tbl =
     ((\<forall>b c a. tbl b c a \<noteq> [])
      \<and> (\<forall>b c a d b' a'. d \<in> set (tbl b c a) \<longrightarrow> tbl b' d a' = [d])
      \<and> (\<forall>b c a. isSurrogateCP c \<longrightarrow> tbl b c a = [c])
      \<and> (\<forall>b c a d. \<not> isSurrogateCP c \<and> c \<le> 0x10FFFF \<and> d \<in> set (tbl b c a)
            \<longrightarrow> \<not> isSurrogateCP d \<and> d \<le> 0x10FFFF)
      \<and> (\<forall>b c a. c < 128 \<longrightarrow> tbl b c a = [if 65 \<le> c \<and> c \<le> 90 then c + 32 else c]))"

text \<open>The code units of a literal, and lowercasing on ASCII code units.\<close>

definition units :: "string \<Rightarrow> ustring" where
  "units s = map (\<lambda>c. codeUnit (of_char c)) s"

definition asciiLower :: "code_unit \<Rightarrow> code_unit" where
  "asciiLower u = (if 65 \<le> unat u \<and> unat u \<le> 90 then codeUnit (unat u + 32) else u)"

section \<open>A sample world\<close>

text \<open>A small world for worked examples: every directory exists, the files
  are those of the first argument, and the engine builds without an exception.\<close>

text \<open>A lowercase mapping with the three kinds of entries of the Unicode tables:
  one code point to one (A to Z), one to two (U+0130 to U+0069 U+0307), and one
  by context (the capital sigma U+03A3 to the final sigma U+03C2 at the end of
  a word, to U+03C3 elsewhere).\<close>

definition sampleLowercase :: lowercase_mapping where
  "sampleLowercase before c after =
     (if c = 0x3A3 then (if before \<noteq> [] \<and> after = [] then [0x3C2] else [0x3C3])
      else if c = 0x130 then [0x69, 0x307]
      else if 65 \<le> c \<and> c \<le> 90 then [c + 32]
      else [c])"

definition sampleNode :: "(string \<Rightarrow> error + json) \<Rightarrow> unit node" where
  "sampleNode files =
     \<lparr> path_join = (\<lambda>d n. d @ ''/'' @ n),
       path_resolve = (\<lambda>p. p),
       os_homedir = ''/home/user'',
       fs_existsSync = (\<lambda>w p. True),
       fs_mkdirSync = (\<lambda>w p. Inr w),
       readJSON = (\<lambda>w p. files p),
       unicode_toLowercase = sampleLowercase,
       sd_registerTransform = (\<lambda>name transform w. w),
       sd_build = (\<lambda>cfg w. (None, w)) \<rparr>"

definition sampleFiles :: "string \<Rightarrow> error + json" where
  "sampleFiles p =
     (if p = ''/t/core.inp.json''
      then Inr (JObj [(''mantine'', JObj [(''primary'', JObj [(''$value'', JStr ''{color.primary}'')])])])
      else if p = ''/t/dark.theme.inp.json''
      then Inr (JObj [(''bg'', JObj [(''$value'', JStr ''#000'')])])
      else if p = ''/t/primitive.ref.inp.json''
      then Inr (JObj [(''color'', JObj [(''primary'', JObj [(''$value'', JStr ''#60a882'')])])])
      else if p = ''/t/old.inp.json''
      then Inr (JObj [(''c'', JObj [(''value'', JStr ''#fff'')])])
      else Inl (SystemError ''ENOENT''))"

definition sampleTree :: "dirent option" where
  "sampleTree =
     Some (Directory ''t'' [File ''primitive.ref.inp.json'', File ''old.inp.json'',
                            File ''core.inp.json'', File ''dark.theme.inp.json'',
                            File ''notes.txt''])"

definition sampleDiscovered :: discovered_files where
  "sampleDiscovered =
     \<lparr> outputFiles = [''/t/old.inp.json'', ''/t/core.inp.json''],
       themeFiles = [''/t/dark.theme.inp.json''],
       referenceFiles = [''/t/primitive.ref.inp.json''],
       allFiles = [''/t/primitive.ref.inp.json'', ''/t/dark.theme.inp.json'',
                   ''/t/old.inp.json'', ''/t/core.inp.json''] \<rparr>"

section \<open>Token counting\<close>

lemma sum_entries_array:
  "sum_list (map (\<lambda>kv. f (snd kv)) (zip (indexKeys (length xs)) xs)) = sum_list (map f xs)"
proof -
  have "map (\<lambda>kv. f (snd kv)) (zip (indexKeys (length xs)) xs)
        = map f (map snd (zip (indexKeys (length xs)) xs))"
    by (simp add: comp_def del: map_snd_zip)
  then show ?thesis by simp
qed

lemma nodeTokens_entries:
  "isObject v \<Longrightarrow> \<not> inOp ''$value'' v \<Longrightarrow> objectEntries v = Inr es \<Longrightarrow>
     nodeTokens v = sum_list (map (\<lambda>kv. nodeTokens (snd kv)) es)"
  by (cases v) (auto simp: sum_entries_array)

lemma countTokens_sum:
  "(\<forall>es. objectEntries tokens = Inr es \<longrightarrow>
      countTokens tokens count = Inr (count + sum_list (map (\<lambda>kv. nodeTokens (snd kv)) es)))"
  "countTokens_for es0 count = Inr (count + sum_list (map (\<lambda>kv. nodeTokens (snd kv)) es0))"
proof (induction tokens count and es0 count rule: countTokens_countTokens_for.induct)
  case (1 tokens count)
  then show ?case by simp
next
  case (2 count)
  then show ?case by simp
next
  case (3 key v rest count)
  show ?case
  proof (cases "isObject v")
    case False
    with 3 show ?thesis by (cases v) auto
  next
    case obj: True
    show ?thesis
    proof (cases "inOp ''$value'' v")
      case True
      with obj 3 show ?thesis by (cases v) auto
    next
      case False
      from obj obtain es where es: "objectEntries v = Inr es"
        using isObject_entries by blast
      with 3(2) [OF obj False] have
        cv: "countTokens v count = Inr (count + sum_list (map (\<lambda>kv. nodeTokens (snd kv)) es))"
        by blast
      with nodeTokens_entries [OF obj False es] have cv': "countTokens v count = Inr (count + nodeTokens v)"
        by simp
      from 3(3) [OF obj False cv'] obj False cv' show ?thesis by simp
    qed
  qed
qed

text \<open>
  C6, as stated, fails: a token inside an array is counted.  The document
  \<^verbatim>\<open>{"a": [{"$value": 1}]}\<close> has one token for the program and none for the walk
  of the specification, which does not descend into arrays.
\<close>

theorem countTokens_array_counterexample:
  "countTokens (JObj [(''a'', JArr [JObj [(''$value'', JNum 1)]])]) 0 = Inr 1
   \<and> specCount (JObj [(''a'', JArr [JObj [(''$value'', JNum 1)]])]) = 0
   \<and> specCountNode (JObj [(''a'', JArr [JObj [(''$value'', JNum 1)]])]) = 0"
  by (simp add: specCount_def indexKeys_def)

text \<open>
  C6, amended: for every document other than \<^verbatim>\<open>null\<close>, the count is the sum over
  the properties of the document of the tokens found at each value, where an
  object with a \<^verbatim>\<open>$value\<close> property counts as exactly one token and is not
  descended into, every other object and every array is descended into without
  being counted, and a primitive or \<^verbatim>\<open>null\<close> is neither counted nor descended
  into.  Two documents with three \<^verbatim>\<open>$value\<close> leaves at different depths both
  count 3.
\<close>

theorem countTokens_walk:
  "(\<forall>doc es. objectEntries doc = Inr es \<longrightarrow>
      countTokens doc 0 = Inr (sum_list (map (\<lambda>kv. nodeTokens (snd kv)) es)))
   \<and> countTokens
        (JObj [(''a'', JObj [(''$value'', JNum 1)]),
               (''b'', JObj [(''$value'', JNum 2)]),
               (''c'', JObj [(''$value'', JNum 3)])]) 0 = Inr 3
   \<and> countTokens
        (JObj [(''a'', JObj [(''b'', JObj [(''c'', JObj [(''$value'', JNum 1)]),
                                           (''d'', JObj [(''$value'', JStr ''x'')])])]),
               (''e'', JObj [(''$value'', JObj [(''f'', JObj [(''$value'', JNum 3)])])])]) 0
       = Inr 3"
proof (intro conjI allI impI)
  fix doc es
  assume "objectEntries doc = Inr es"
  with countTokens_sum(1) [of doc 0] show
    "countTokens doc 0 = Inr (sum_list (map (\<lambda>kv. nodeTokens (snd kv)) es))"
    by simp
qed simp_all

theorem countTokens_walk_witness:
  "countTokens (JObj [(''list'', JArr [JObj [(''$value'', JNum 1)], JStr ''x'',
                                      JObj [(''n'', JObj [(''$value'', JNum 2)])]])]) 0
     = Inr 2"
proof -
  let ?es = "[(''list'', JArr [JObj [(''$value'', JNum 1)], JStr ''x'',
                               JObj [(''n'', JObj [(''$value'', JNum 2)])]])]"
  have e: "objectEntries (JObj ?es) = Inr ?es" by simp
  from countTokens_walk have
    "objectEntries (JObj ?es) = Inr ?es \<longrightarrow>
       countTokens (JObj ?es) 0 = Inr (sum_list (map (\<lambda>kv. nodeTokens (snd kv)) ?es))"
    by (elim conjE allE)
  with e have "countTokens (JObj ?es) 0 = Inr (sum_list (map (\<lambda>kv. nodeTokens (snd kv)) ?es))"
    by (rule rev_mp)
  also have "sum_list (map (\<lambda>kv. nodeTokens (snd kv)) ?es) = 2" by simp
  finally show ?thesis .
qed

section \<open>Token paths\<close>

lemma extractTokenPaths_image:
  "(\<forall>es. objectEntries tokens = Inr es \<longrightarrow>
      extractTokenPaths tokens cur paths
        = Inr (paths \<union> (\<lambda>p. join ''.'' (cur @ p)) ` set (tokenPathsIn es)))"
  "extractTokenPaths_for es0 cur paths
     = Inr (paths \<union> (\<lambda>p. join ''.'' (cur @ p)) ` set (tokenPathsIn es0))"
proof (induction tokens cur paths and es0 cur paths rule: extractTokenPaths_extractTokenPaths_for.induct)
  case (1 tokens currentPath paths)
  then show ?case by simp
next
  case (2 currentPath paths)
  then show ?case by simp
next
  case (3 key v rest currentPath paths)
  show ?case
  proof (cases "isObject v")
    case False
    with 3 show ?thesis by simp
  next
    case obj: True
    show ?thesis
    proof (cases "inOp ''$value'' v")
      case True
      with obj 3(1) [OF obj refl True] show ?thesis by auto
    next
      case False
      from obj obtain es where es: "objectEntries v = Inr es"
        using isObject_entries by blast
      then have eo: "entriesOf v = es" by (simp add: entriesOf_def)
      let ?P = "paths \<union> (\<lambda>p. join ''.'' ((currentPath @ [key]) @ p)) ` set (tokenPathsIn es)"
      from 3(2) [OF obj refl False] es have
        cv: "extractTokenPaths v (currentPath @ [key]) paths = Inr ?P"
        by blast
      from 3(3) [OF obj refl False cv] obj False cv eo show ?thesis
        by (auto simp: image_image)
    qed
  qed
qed


















section \<open>Format validation\<close>

lemma list_ex_entries_array:
  "list_ex (\<lambda>kv. P (snd kv)) (zip (indexKeys (length xs)) xs) = list_ex P xs"
proof -
  have "list_ex P (map snd (zip (indexKeys (length xs)) xs))
        = list_ex (\<lambda>kv. P (snd kv)) (zip (indexKeys (length xs)) xs)"
    by (simp add: list_ex_iff del: map_snd_zip)
  then show ?thesis by simp
qed

lemma legacyNode_entries:
  "isObject v \<Longrightarrow> objectEntries v = Inr es \<Longrightarrow>
     legacyNode v = ((inOp ''value'' v \<and> \<not> inOp ''$value'' v) \<or> list_ex (\<lambda>kv. legacyNode (snd kv)) es)"
  by (cases v) (auto simp: list_ex_entries_array)

lemma hasLegacyTokenFormat_view:
  "(\<forall>es. objectEntries tokens = Inr es \<longrightarrow>
      hasLegacyTokenFormat tokens = Inr (list_ex (\<lambda>kv. legacyNode (snd kv)) es))"
  "hasLegacyTokenFormat_for es0 = Inr (list_ex (\<lambda>kv. legacyNode (snd kv)) es0)"
proof (induction tokens and es0 rule: hasLegacyTokenFormat_hasLegacyTokenFormat_for.induct)
  case (1 tokens)
  then show ?case by simp
next
  case 2
  then show ?case by simp
next
  case (3 key v rest)
  show ?case
  proof (cases "isObject v")
    case False
    with 3 show ?thesis by (cases v) auto
  next
    case obj: True
    from obj obtain es where es: "objectEntries v = Inr es"
      using isObject_entries by blast
    note ln = legacyNode_entries [OF obj es]
    show ?thesis
    proof (cases "inOp ''value'' v \<and> \<not> inOp ''$value'' v")
      case True
      with obj ln show ?thesis by simp
    next
      case False
      from 3(1) [OF obj False] es have
        hv: "hasLegacyTokenFormat v = Inr (list_ex (\<lambda>kv. legacyNode (snd kv)) es)" by blast
      show ?thesis
      proof (cases "list_ex (\<lambda>kv. legacyNode (snd kv)) es")
        case True
        with obj False hv ln show ?thesis by simp
      next
        case nf: False
        from 3(2) [OF obj False hv] nf have
          "hasLegacyTokenFormat_for rest = Inr (list_ex (\<lambda>kv. legacyNode (snd kv)) rest)" by simp
        with obj False hv ln nf show ?thesis by auto
      qed
    qed
  qed
qed

section \<open>Name normalisation\<close>

subsection \<open>The UTF-16 codec\<close>

lemma unat_codeUnit [simp]: "n < 65536 \<Longrightarrow> unat (codeUnit n) = n"
  by (simp add: codeUnit_def unat_of_nat)

lemma codeUnit_unat [simp]: "codeUnit (unat u) = u"
  by (simp add: codeUnit_def)

lemma unat_lt16: "unat (u :: 16 word) < 65536"
  using unsigned_less [of u, where ?'a = nat] by simp

lemma decode_single: "\<not> (isLeadSurrogate u \<and> (rest \<noteq> [] \<and> isTrailSurrogate (hd rest))) \<Longrightarrow>
  stringToCodePoints (u # rest) = unat u # stringToCodePoints rest"
  by (cases rest) auto

lemma decode_pair: "isLeadSurrogate u \<Longrightarrow> isTrailSurrogate v \<Longrightarrow>
  stringToCodePoints (u # v # rest)
    = (0x10000 + (unat u - 0xD800) * 0x400 + (unat v - 0xDC00)) # stringToCodePoints rest"
  by simp

lemma encode_pair:
  assumes "isLeadSurrogate u" "isTrailSurrogate v"
  shows "utf16EncodeCodePoint (0x10000 + (unat u - 0xD800) * 0x400 + (unat v - 0xDC00)) = [u, v]"
proof -
  let ?h = "unat u - 0xD800" and ?l = "unat v - 0xDC00"
  from assms have h: "?h < 0x400" "0xD800 + ?h = unat u" and l: "?l < 0x400" "0xDC00 + ?l = unat v"
    by (auto simp: isLeadSurrogate_def isTrailSurrogate_def)
  have "(?h * 0x400 + ?l) div 0x400 = ?h" "(?h * 0x400 + ?l) mod 0x400 = ?l"
    using l(1) by simp_all
  then show ?thesis
    using h(2) l(2) by (simp add: utf16EncodeCodePoint_def)
qed

lemma encode_decode: "codePointsToString (stringToCodePoints s) = s"
proof (induction s rule: stringToCodePoints.induct)
  case 1
  then show ?case by (simp add: codePointsToString_def)
next
  case (2 u)
  from unat_lt16 [of u] show ?case
    by (simp add: codePointsToString_def utf16EncodeCodePoint_def)
next
  case (3 u v rest)
  show ?case
  proof (cases "isLeadSurrogate u \<and> isTrailSurrogate v")
    case True
    with 3(1) encode_pair [of u v] show ?thesis
      by (simp add: codePointsToString_def)
  next
    case False
    then have "stringToCodePoints (u # v # rest) = unat u # stringToCodePoints (v # rest)"
      by auto
    with 3(2) [OF False] unat_lt16 [of u] show ?thesis
      by (simp add: codePointsToString_def utf16EncodeCodePoint_def del: stringToCodePoints.simps)
  qed
qed

lemma unpaired_Cons:
  "unpaired (c # cs) \<longleftrightarrow>
     c \<le> 0x10FFFF \<and> \<not> (isLeadCP c \<and> cs \<noteq> [] \<and> isTrailCP (hd cs)) \<and> unpaired cs"
  by (cases cs) auto

declare unpaired.simps(2,3) [simp del]

lemma hd_decode:
  "s \<noteq> [] \<Longrightarrow> isTrailCP (hd (stringToCodePoints s)) \<longleftrightarrow> isTrailSurrogate (hd s)"
proof (cases s rule: stringToCodePoints.cases)
  case (3 u v rest)
  then show ?thesis
    by (auto simp: isTrailCP_def isTrailSurrogate_def isLeadSurrogate_def)
qed (auto simp: isTrailCP_def isTrailSurrogate_def)

lemma decode_nonempty [simp]: "stringToCodePoints s = [] \<longleftrightarrow> s = []"
  by (cases s rule: stringToCodePoints.cases) auto

lemma unpaired_decode: "unpaired (stringToCodePoints s)"
proof (induction s rule: stringToCodePoints.induct)
  case 1
  then show ?case by simp
next
  case (2 u)
  from unat_lt16 [of u] show ?case by (simp add: unpaired_Cons)
next
  case (3 u v rest)
  show ?case
  proof (cases "isLeadSurrogate u \<and> isTrailSurrogate v")
    case True
    let ?cp = "0x10000 + (unat u - 0xD800) * 0x400 + (unat v - 0xDC00)"
    from True have "?cp \<le> 0x10FFFF" "\<not> isLeadCP ?cp"
      by (auto simp: isLeadSurrogate_def isTrailSurrogate_def isLeadCP_def)
    with True 3(1) show ?thesis by (simp add: unpaired_Cons)
  next
    case False
    then have d: "stringToCodePoints (u # v # rest) = unat u # stringToCodePoints (v # rest)"
      by auto
    from False have "\<not> (isLeadCP (unat u) \<and> isTrailCP (hd (stringToCodePoints (v # rest))))"
      using hd_decode [of "v # rest"] by (auto simp: isLeadCP_def isLeadSurrogate_def)
    with 3(2) [OF False] unat_lt16 [of u] show ?thesis
      unfolding d by (simp add: unpaired_Cons del: stringToCodePoints.simps)
  qed
qed

lemma hd_encode:
  "cps \<noteq> [] \<Longrightarrow> hd cps \<le> 0x10FFFF \<Longrightarrow>
     codePointsToString cps \<noteq> [] \<and>
     (isTrailSurrogate (hd (codePointsToString cps)) \<longleftrightarrow> isTrailCP (hd cps))"
proof (cases cps)
  case Nil
  assume "cps \<noteq> []"
  with Nil show ?thesis by simp
next
  case (Cons c rest)
  assume "hd cps \<le> 0x10FFFF"
  with Cons have c: "c \<le> 0x10FFFF" by simp
  show ?thesis
  proof (cases "c \<le> 0xFFFF")
    case True
    with Cons show ?thesis
      by (simp add: codePointsToString_def utf16EncodeCodePoint_def isTrailSurrogate_def
          isTrailCP_def)
  next
    case False
    with c have "(c - 0x10000) div 0x400 < 0x400" by simp
    then have "unat (codeUnit (0xD800 + (c - 0x10000) div 0x400))
        = 0xD800 + (c - 0x10000) div 0x400" by simp
    with False Cons \<open>(c - 0x10000) div 0x400 < 0x400\<close> show ?thesis
      by (simp add: codePointsToString_def utf16EncodeCodePoint_def isTrailSurrogate_def
          isTrailCP_def)
  qed
qed

lemma decode_encode: "unpaired cps \<Longrightarrow> stringToCodePoints (codePointsToString cps) = cps"
proof (induction cps)
  case Nil
  then show ?case by (simp add: codePointsToString_def)
next
  case (Cons c rest)
  from Cons.prems have c: "c \<le> 0x10FFFF" and u: "unpaired rest"
    and np: "\<not> (isLeadCP c \<and> rest \<noteq> [] \<and> isTrailCP (hd rest))"
    by (simp_all add: unpaired_Cons)
  from Cons.IH [OF u] have ih: "stringToCodePoints (codePointsToString rest) = rest" .
  let ?X = "codePointsToString rest"
  show ?case
  proof (cases "c \<le> 0xFFFF")
    case True
    then have e: "codePointsToString (c # rest) = codeUnit c # ?X"
      by (simp add: codePointsToString_def utf16EncodeCodePoint_def)
    have "\<not> (isLeadSurrogate (codeUnit c) \<and> (?X \<noteq> [] \<and> isTrailSurrogate (hd ?X)))"
    proof
      assume a: "isLeadSurrogate (codeUnit c) \<and> (?X \<noteq> [] \<and> isTrailSurrogate (hd ?X))"
      with True have l: "isLeadCP c" by (simp add: isLeadSurrogate_def isLeadCP_def)
      from a have "rest \<noteq> []" by (auto simp: codePointsToString_def)
      moreover from u this have "hd rest \<le> 0x10FFFF" by (cases rest) (auto simp: unpaired_Cons)
      ultimately have "isTrailCP (hd rest)" using hd_encode [of rest] a by simp
      with l \<open>rest \<noteq> []\<close> np show False by simp
    qed
    from decode_single [OF this] True ih show ?thesis unfolding e by simp
  next
    case False
    let ?h = "(c - 0x10000) div 0x400" and ?l = "(c - 0x10000) mod 0x400"
    from False c have h: "?h < 0x400" and l: "?l < 0x400" by simp_all
    from False have e: "codePointsToString (c # rest)
        = codeUnit (0xD800 + ?h) # codeUnit (0xDC00 + ?l) # ?X"
      by (simp add: codePointsToString_def utf16EncodeCodePoint_def)
    from h l have uh: "unat (codeUnit (0xD800 + ?h)) = 0xD800 + ?h"
      and ul: "unat (codeUnit (0xDC00 + ?l)) = 0xDC00 + ?l" by simp_all
    from h l uh ul have s: "isLeadSurrogate (codeUnit (0xD800 + ?h))"
      "isTrailSurrogate (codeUnit (0xDC00 + ?l))"
      by (simp_all add: isLeadSurrogate_def isTrailSurrogate_def)
    have "0x10000 + ?h * 0x400 + ?l = c" using False by simp
    with decode_pair [OF s, of ?X] uh ul ih show ?thesis unfolding e by simp
  qed
qed

lemma unpaired_append:
  "unpaired (xs @ ys) \<longleftrightarrow>
     unpaired xs \<and> unpaired ys
     \<and> \<not> (xs \<noteq> [] \<and> ys \<noteq> [] \<and> isLeadCP (last xs) \<and> isTrailCP (hd ys))"
proof (induction xs)
  case Nil
  then show ?case by simp
next
  case (Cons x xs)
  show ?case
  proof (cases "xs = []")
    case True
    then show ?thesis by (cases ys) (auto simp: unpaired_Cons)
  next
    case False
    with Cons show ?thesis
      by (simp add: unpaired_Cons)
  qed
qed

lemma unpaired_nonsurrogates:
  "\<forall>d \<in> set xs. \<not> isSurrogateCP d \<and> d \<le> 0x10FFFF \<Longrightarrow> unpaired xs"
proof (induction xs)
  case Nil
  then show ?case by simp
next
  case (Cons x xs)
  then have "\<not> isLeadCP x" by (auto simp: isSurrogateCP_def isLeadCP_def)
  with Cons show ?case by (simp add: unpaired_Cons)
qed

subsection \<open>Lowercasing keeps code points apart\<close>

lemma lm_nonempty: "lowercaseMappings tbl \<Longrightarrow> tbl b c a \<noteq> []"
  unfolding lowercaseMappings_def by blast

lemma lm_unchanged:
  "lowercaseMappings tbl \<Longrightarrow> d \<in> set (tbl b c a) \<Longrightarrow> tbl b' d a' = [d]"
  unfolding lowercaseMappings_def by blast

lemma lm_surrogate: "lowercaseMappings tbl \<Longrightarrow> isSurrogateCP c \<Longrightarrow> tbl b c a = [c]"
  unfolding lowercaseMappings_def by blast

lemma lm_range:
  "lowercaseMappings tbl \<Longrightarrow> \<not> isSurrogateCP c \<Longrightarrow> c \<le> 0x10FFFF \<Longrightarrow>
     d \<in> set (tbl b c a) \<Longrightarrow> \<not> isSurrogateCP d \<and> d \<le> 0x10FFFF"
  unfolding lowercaseMappings_def by blast

lemma lm_ascii:
  "lowercaseMappings tbl \<Longrightarrow> c < 128 \<Longrightarrow>
     tbl b c a = [if 65 \<le> c \<and> c \<le> 90 then c + 32 else c]"
  unfolding lowercaseMappings_def by blast

lemma mapping_block:
  assumes t: "lowercaseMappings tbl" and c: "c \<le> 0x10FFFF"
  shows "tbl b c a \<noteq> []" and "unpaired (tbl b c a)"
    and "isTrailCP (hd (tbl b c a)) \<Longrightarrow> isTrailCP c"
    and "isLeadCP (last (tbl b c a)) \<Longrightarrow> isLeadCP c"
proof -
  from t show ne: "tbl b c a \<noteq> []" by (rule lm_nonempty)
  show "unpaired (tbl b c a)"
  proof (cases "isSurrogateCP c")
    case True
    with t have "tbl b c a = [c]" by (simp add: lm_surrogate)
    with c show ?thesis by (simp add: unpaired_Cons)
  next
    case False
    with t c have "\<forall>d \<in> set (tbl b c a). \<not> isSurrogateCP d \<and> d \<le> 0x10FFFF"
      using lm_range [of tbl c _ b a] by blast
    then show ?thesis by (rule unpaired_nonsurrogates)
  qed
  show "isTrailCP c" if h: "isTrailCP (hd (tbl b c a))"
  proof (cases "isSurrogateCP c")
    case True
    with t have "tbl b c a = [c]" by (simp add: lm_surrogate)
    with h show ?thesis by simp
  next
    case False
    with t c have "\<forall>d \<in> set (tbl b c a). \<not> isSurrogateCP d"
      using lm_range [of tbl c _ b a] by blast
    with ne have "\<not> isSurrogateCP (hd (tbl b c a))" by simp
    with h show ?thesis by (simp add: isSurrogateCP_def isTrailCP_def)
  qed
  show "isLeadCP c" if h: "isLeadCP (last (tbl b c a))"
  proof (cases "isSurrogateCP c")
    case True
    with t have "tbl b c a = [c]" by (simp add: lm_surrogate)
    with h show ?thesis by simp
  next
    case False
    with t c have "\<forall>d \<in> set (tbl b c a). \<not> isSurrogateCP d"
      using lm_range [of tbl c _ b a] by blast
    with ne have "\<not> isSurrogateCP (last (tbl b c a))" by simp
    with h show ?thesis by (simp add: isSurrogateCP_def isLeadCP_def)
  qed
qed

lemma lower_nonempty:
  "lowercaseMappings tbl \<Longrightarrow> cps \<noteq> [] \<Longrightarrow> toLowercaseFrom tbl b cps \<noteq> []"
  by (cases cps) (auto simp: lm_nonempty)

lemma hd_lower:
  "lowercaseMappings tbl \<Longrightarrow>
     hd (toLowercaseFrom tbl b (c # after)) = hd (tbl b c after)"
  by (simp add: lm_nonempty)

lemma unpaired_lower:
  assumes t: "lowercaseMappings tbl"
  shows "unpaired cps \<Longrightarrow> unpaired (toLowercaseFrom tbl b cps)"
proof (induction cps arbitrary: b)
  case Nil
  then show ?case by simp
next
  case (Cons c rest)
  from Cons.prems have c: "c \<le> 0x10FFFF" and u: "unpaired rest"
    and np: "\<not> (isLeadCP c \<and> rest \<noteq> [] \<and> isTrailCP (hd rest))"
    by (simp_all add: unpaired_Cons)
  note blk = mapping_block [OF t c, of b rest]
  let ?R = "toLowercaseFrom tbl (b @ [c]) rest"
  from Cons.IH [OF u] have ur: "unpaired ?R" .
  have "\<not> (isLeadCP (last (tbl b c rest)) \<and> ?R \<noteq> [] \<and> isTrailCP (hd ?R))"
  proof
    assume a: "isLeadCP (last (tbl b c rest)) \<and> ?R \<noteq> [] \<and> isTrailCP (hd ?R)"
    then have l: "isLeadCP c" using blk(4) by simp
    from a have ne: "rest \<noteq> []" by auto
    then obtain d rest' where r: "rest = d # rest'" by (cases rest) auto
    with u have d: "d \<le> 0x10FFFF" by (simp add: unpaired_Cons)
    from a r hd_lower [OF t, of "b @ [c]" d rest'] have "isTrailCP (hd (tbl (b @ [c]) d rest'))"
      by simp
    from mapping_block(3) [OF t d this] have "isTrailCP d" .
    with l r np show False by simp
  qed
  with blk(2) ur have "unpaired (tbl b c rest @ ?R)"
    unfolding unpaired_append by blast
  then show ?case by (simp only: toLowercaseFrom.simps)
qed

lemma lower_unchanged:
  "lowercaseMappings tbl \<Longrightarrow> d \<in> set (toLowercaseFrom tbl b cps) \<Longrightarrow> unchanged tbl d"
proof (induction cps arbitrary: b)
  case Nil
  then show ?case by simp
next
  case (Cons c rest)
  from Cons.prems(2) have "d \<in> set (tbl b c rest) \<or> d \<in> set (toLowercaseFrom tbl (b @ [c]) rest)"
    by simp
  then show ?case
  proof
    assume m: "d \<in> set (tbl b c rest)"
    with Cons.prems(1) show ?thesis unfolding unchanged_def
      using lm_unchanged [of tbl d b c rest] by blast
  next
    assume "d \<in> set (toLowercaseFrom tbl (b @ [c]) rest)"
    with Cons show ?thesis by blast
  qed
qed

lemma lower_fixed:
  "\<forall>d \<in> set cps. unchanged tbl d \<Longrightarrow> toLowercaseFrom tbl b cps = cps"
  by (induction cps arbitrary: b) (auto simp: unchanged_def)

subsection \<open>Whitespace runs\<close>

lemma unat_dash [simp]: "unat dash = 0x2D"
  by (simp add: dash_def)

lemma dash_not_whitespace: "\<not> isWhitespace dash"
  by (simp add: isWhitespace_def)

lemma replaceWhitespaceRuns_set:
  "set (replaceWhitespaceRuns s) \<subseteq> insert dash {c \<in> set s. \<not> isWhitespace c}"
proof (induction s rule: replaceWhitespaceRuns.induct)
  case 1
  then show ?case by simp
next
  case (2 c cs)
  show ?case
  proof (cases "isWhitespace c")
    case True
    with 2(1) have "set (replaceWhitespaceRuns (dropWhile isWhitespace cs))
      \<subseteq> insert dash {c \<in> set (dropWhile isWhitespace cs). \<not> isWhitespace c}" by simp
    moreover have "set (dropWhile isWhitespace cs) \<subseteq> set cs" by (rule set_dropWhileD [THEN subsetI])
    ultimately show ?thesis using True by auto
  next
    case False
    with 2(2) show ?thesis by auto
  qed
qed

lemma replaceWhitespaceRuns_id:
  "\<forall>c \<in> set s. \<not> isWhitespace c \<Longrightarrow> replaceWhitespaceRuns s = s"
  by (induction s) auto

lemma replaceWhitespaceRuns_dash:
  "replaceWhitespaceRuns (x @ dash # y)
     = replaceWhitespaceRuns x @ dash # replaceWhitespaceRuns y"
proof (induction x rule: replaceWhitespaceRuns.induct)
  case 1
  then show ?case by (simp add: dash_not_whitespace)
next
  case (2 c cs)
  show ?case
  proof (cases "isWhitespace c")
    case True
    have "dropWhile isWhitespace (cs @ dash # y)
          = dropWhile isWhitespace cs @ dash # y"
      by (induction cs) (auto simp: dash_not_whitespace)
    with 2(1) [OF True] True show ?thesis by simp
  next
    case False
    with 2(2) show ?thesis by simp
  qed
qed

lemma whitespace_not_surrogate: "isWhitespace u \<Longrightarrow> \<not> isSurrogate u"
  by (auto simp: isWhitespace_def isSurrogate_def isLeadSurrogate_def isTrailSurrogate_def Let_def)

lemma dash_not_surrogate: "\<not> isSurrogate dash"
  by (simp add: isSurrogate_def isLeadSurrogate_def isTrailSurrogate_def)

lemma decode_nonsurrogate:
  "\<not> isSurrogate u \<Longrightarrow> stringToCodePoints (u # rest) = unat u # stringToCodePoints rest"
  by (rule decode_single) (simp add: isSurrogate_def)

lemma decode_nonsurrogates:
  "\<forall>u \<in> set p. \<not> isSurrogate u \<Longrightarrow>
     stringToCodePoints (p @ rest) = map unat p @ stringToCodePoints rest"
  by (induction p) (simp_all add: decode_nonsurrogate del: stringToCodePoints.simps)

lemma hd_rws:
  "cs \<noteq> [] \<Longrightarrow> isTrailSurrogate (hd cs) \<Longrightarrow>
     replaceWhitespaceRuns cs \<noteq> [] \<and> hd (replaceWhitespaceRuns cs) = hd cs"
proof (cases cs)
  case Nil
  assume "cs \<noteq> []"
  with Nil show ?thesis by simp
next
  case (Cons c rest)
  assume "isTrailSurrogate (hd cs)"
  with Cons whitespace_not_surrogate [of c] have "\<not> isWhitespace c"
    by (auto simp: isSurrogate_def)
  with Cons show ?thesis by simp
qed

lemma hd_rws_trail:
  "replaceWhitespaceRuns cs \<noteq> [] \<Longrightarrow> isTrailSurrogate (hd (replaceWhitespaceRuns cs)) \<Longrightarrow>
     cs \<noteq> [] \<and> isTrailSurrogate (hd cs)"
proof (cases cs)
  case Nil
  assume "replaceWhitespaceRuns cs \<noteq> []"
  with Nil show ?thesis by simp
next
  case (Cons c rest)
  assume t: "isTrailSurrogate (hd (replaceWhitespaceRuns cs))"
  show ?thesis
  proof (cases "isWhitespace c")
    case True
    with Cons t have "isTrailSurrogate dash" by simp
    with dash_not_surrogate show ?thesis by (simp add: isSurrogate_def)
  next
    case False
    with Cons t show ?thesis by simp
  qed
qed

lemma decode_rws:
  "set (stringToCodePoints (replaceWhitespaceRuns t)) \<subseteq> insert 0x2D (set (stringToCodePoints t))"
proof (induction t rule: length_induct)
  case (1 t)
  show ?case
  proof (cases t)
    case Nil
    then show ?thesis by simp
  next
    case (Cons c cs)
    show ?thesis
    proof (cases "isWhitespace c")
      case ws: True
      let ?p = "takeWhile isWhitespace cs" and ?d = "dropWhile isWhitespace cs"
      have len: "length ?d < length t" using Cons by (simp add: length_dropWhile_le less_Suc_eq_le)
      with 1 have ih: "set (stringToCodePoints (replaceWhitespaceRuns ?d))
          \<subseteq> insert 0x2D (set (stringToCodePoints ?d))" by blast
      have "\<forall>u \<in> set (c # ?p). \<not> isSurrogate u"
        using ws whitespace_not_surrogate by (auto dest: set_takeWhileD)
      from decode_nonsurrogates [OF this, of ?d] have
        "stringToCodePoints (c # cs) = map unat (c # ?p) @ stringToCodePoints ?d" by simp
      then have sub: "set (stringToCodePoints ?d) \<subseteq> set (stringToCodePoints t)"
        using Cons by auto
      have "stringToCodePoints (replaceWhitespaceRuns t)
          = 0x2D # stringToCodePoints (replaceWhitespaceRuns ?d)"
        using Cons ws decode_nonsurrogate [OF dash_not_surrogate]
        by simp
      with ih sub show ?thesis by auto
    next
      case nws: False
      then have r: "replaceWhitespaceRuns t = c # replaceWhitespaceRuns cs" using Cons by simp
      from 1 Cons have ih: "set (stringToCodePoints (replaceWhitespaceRuns cs))
          \<subseteq> insert 0x2D (set (stringToCodePoints cs))" by simp
      show ?thesis
      proof (cases "isLeadSurrogate c \<and> cs \<noteq> [] \<and> isTrailSurrogate (hd cs)")
        case True
        then obtain v cs' where cs: "cs = v # cs'" and v: "isTrailSurrogate v"
          by (cases cs) auto
        from v whitespace_not_surrogate [of v] have "\<not> isWhitespace v"
          by (auto simp: isSurrogate_def)
        with r cs have r': "replaceWhitespaceRuns t = c # v # replaceWhitespaceRuns cs'" by simp
        from 1 Cons cs have ih': "set (stringToCodePoints (replaceWhitespaceRuns cs'))
          \<subseteq> insert 0x2D (set (stringToCodePoints cs'))" by simp
        from True v r' Cons cs ih' show ?thesis by auto
      next
        case False
        from decode_single [of c cs] False have
          d1: "stringToCodePoints t = unat c # stringToCodePoints cs" using Cons by blast
        have "\<not> (isLeadSurrogate c \<and> (replaceWhitespaceRuns cs \<noteq> []
            \<and> isTrailSurrogate (hd (replaceWhitespaceRuns cs))))"
          using False hd_rws_trail [of cs] by blast
        from decode_single [OF this] r have
          "stringToCodePoints (replaceWhitespaceRuns t)
             = unat c # stringToCodePoints (replaceWhitespaceRuns cs)" by simp
        with d1 ih show ?thesis by auto
      qed
    qed
  qed
qed

subsection \<open>Idempotence\<close>

lemma toLowerCase_fixed:
  assumes "\<forall>d \<in> set (stringToCodePoints r). unchanged tbl d"
  shows "toLowerCase tbl r = r"
  using lower_fixed [OF assms, of "[]"] by (simp add: toLowerCase_def encode_decode)

lemma toLowerCase_unchanged:
  assumes t: "lowercaseMappings tbl"
  shows "\<forall>d \<in> set (stringToCodePoints (toLowerCase tbl s)). unchanged tbl d"
proof -
  let ?out = "toLowercaseFrom tbl [] (stringToCodePoints s)"
  from unpaired_lower [OF t unpaired_decode] have "unpaired ?out" .
  from decode_encode [OF this] have "stringToCodePoints (toLowerCase tbl s) = ?out"
    by (simp add: toLowerCase_def)
  with lower_unchanged [OF t] show ?thesis by auto
qed

lemma normalizeSegment_idem:
  assumes t: "lowercaseMappings tbl"
  shows "normalizeSegment tbl (normalizeSegment tbl s) = normalizeSegment tbl s"
proof -
  let ?t = "toLowerCase tbl s"
  let ?r = "replaceWhitespaceRuns ?t"
  have "unchanged tbl 0x2D"
    unfolding unchanged_def using lm_ascii [OF t, of "0x2D"] by simp
  with toLowerCase_unchanged [OF t, of s] decode_rws [of ?t]
  have "\<forall>d \<in> set (stringToCodePoints ?r). unchanged tbl d" by blast
  then have low: "toLowerCase tbl ?r = ?r" by (rule toLowerCase_fixed)
  have "\<forall>c \<in> set ?r. \<not> isWhitespace c"
    using replaceWhitespaceRuns_set [of ?t] dash_not_whitespace by auto
  then have "replaceWhitespaceRuns ?r = ?r" by (rule replaceWhitespaceRuns_id)
  with low show ?thesis by (simp add: normalizeSegment_def)
qed

subsection \<open>ASCII segments\<close>

lemma toLowercaseFrom_ascii:
  assumes t: "lowercaseMappings tbl"
  shows "\<forall>c \<in> set cps. c < 128 \<Longrightarrow>
     toLowercaseFrom tbl b cps = map (\<lambda>c. if 65 \<le> c \<and> c \<le> 90 then c + 32 else c) cps"
  by (induction cps arbitrary: b) (simp_all add: lm_ascii [OF t])

lemma toLowerCase_ascii:
  assumes t: "lowercaseMappings tbl" and a: "\<forall>u \<in> set s. unat u < 128"
  shows "toLowerCase tbl s = map asciiLower s"
proof -
  from a have "\<forall>u \<in> set s. \<not> isSurrogate u"
    by (auto simp: isSurrogate_def isLeadSurrogate_def isTrailSurrogate_def)
  from decode_nonsurrogates [OF this, of "[]"] have d: "stringToCodePoints s = map unat s" by simp
  from a have "\<forall>c \<in> set (map unat s). c < 128" by simp
  from toLowercaseFrom_ascii [OF t this, of "[]"] have
    "toLowerCase tbl s
       = codePointsToString (map (\<lambda>c. if 65 \<le> c \<and> c \<le> 90 then c + 32 else c) (map unat s))"
    by (simp add: toLowerCase_def d)
  also have "\<dots> = map asciiLower s"
    using a by (induction s)
      (auto simp: codePointsToString_def utf16EncodeCodePoint_def asciiLower_def)
  finally show ?thesis .
qed

lemma units_ascii: "\<forall>c \<in> set s. (of_char c :: nat) < 128 \<Longrightarrow> \<forall>u \<in> set (units s). unat u < 128"
  by (auto simp: units_def)

lemma normalizeSegment_ascii:
  assumes t: "lowercaseMappings tbl" and a: "\<forall>u \<in> set s. unat u < 128"
  shows "normalizeSegment tbl s = replaceWhitespaceRuns (map asciiLower s)"
  by (simp add: normalizeSegment_def toLowerCase_ascii [OF t a])

lemma asciiLower_codeUnit:
  "n < 65536 \<Longrightarrow> asciiLower (codeUnit n) = codeUnit (if 65 \<le> n \<and> n \<le> 90 then n + 32 else n)"
  by (simp add: asciiLower_def)

lemma isWhitespace_codeUnit:
  "n < 65536 \<Longrightarrow> isWhitespace (codeUnit n) =
     ((0x09 \<le> n \<and> n \<le> 0x0D) \<or> n = 0x20 \<or> n = 0xA0 \<or> n = 0x1680
      \<or> (0x2000 \<le> n \<and> n \<le> 0x200A) \<or> n = 0x2028 \<or> n = 0x2029 \<or> n = 0x202F
      \<or> n = 0x205F \<or> n = 0x3000 \<or> n = 0xFEFF)"
  by (simp add: isWhitespace_def Let_def)

lemmas unit_eval = units_def asciiLower_codeUnit isWhitespace_codeUnit dash_def

lemma sample_lowercaseMappings: "lowercaseMappings sampleLowercase"
  unfolding lowercaseMappings_def
proof (intro conjI allI impI)
  fix b c a d b' a'
  assume "d \<in> set (sampleLowercase b c a)"
  then show "sampleLowercase b' d a' = [d]"
    by (auto simp: sampleLowercase_def split: if_splits)
next
  fix b c a d
  assume "\<not> isSurrogateCP c \<and> c \<le> 0x10FFFF \<and> d \<in> set (sampleLowercase b c a)"
  then show "\<not> isSurrogateCP d" and "d \<le> 0x10FFFF"
    by (auto simp: sampleLowercase_def isSurrogateCP_def split: if_splits)
qed (auto simp: sampleLowercase_def isSurrogateCP_def)

lemma sample_normalize:
  "normalizeSegment sampleLowercase
     [codeUnit 0x130, codeUnit 0x3000, codeUnit 0xFEFF, codeUnit 0x41, codeUnit 0x3A3]
   = [codeUnit 0x69, codeUnit 0x307, codeUnit 0x2D, codeUnit 0x61, codeUnit 0x3C2]"
  by (simp add: normalizeSegment_def toLowerCase_def codePointsToString_def
      utf16EncodeCodePoint_def sampleLowercase_def isLeadSurrogate_def isWhitespace_codeUnit
      dash_def)

text \<open>
  C8: for every string of code units, paired surrogates or not, and every
  lowercase mapping with the properties \<open>lowercaseMappings\<close> of the Unicode
  tables, the normalisation of a segment (lowercase, then every run of
  whitespace to one dash) is idempotent; the transform joins the normalised
  segments with dashes; the replacement leaves a dash where it is, and so does
  the normalisation of a segment of ASCII code units; and the three examples of
  the specification hold.
\<close>

theorem normalize_idempotent:
  assumes "lowercaseMappings tbl"
  shows "normalizeSegment tbl (normalizeSegment tbl s) = normalizeSegment tbl s
   \<and> customNameTransform tbl pathSegments
       = join [dash] (map (normalizeSegment tbl) pathSegments)
   \<and> replaceWhitespaceRuns (x @ [dash] @ y)
       = replaceWhitespaceRuns x @ [dash] @ replaceWhitespaceRuns y
   \<and> ((\<forall>u \<in> set (x @ y). unat u < 128)
        \<longrightarrow> normalizeSegment tbl (x @ [dash] @ y)
            = normalizeSegment tbl x @ [dash] @ normalizeSegment tbl y)
   \<and> customNameTransform tbl [units ''Deep Sage'', units ''0''] = units ''deep-sage-0''
   \<and> customNameTransform tbl [units ''A B'', units ''c-D''] = units ''a-b-c-d''
   \<and> customNameTransform tbl [units ''text-size''] = units ''text-size''"
proof (intro conjI impI)
  show "normalizeSegment tbl (normalizeSegment tbl s) = normalizeSegment tbl s"
    using assms by (rule normalizeSegment_idem)
  show "customNameTransform tbl pathSegments
       = join [dash] (map (normalizeSegment tbl) pathSegments)"
    by (simp add: customNameTransform_def)
  show d: "replaceWhitespaceRuns (x @ [dash] @ y)
       = replaceWhitespaceRuns x @ [dash] @ replaceWhitespaceRuns y" for x y
    using replaceWhitespaceRuns_dash [of x y] by simp
  show "normalizeSegment tbl (x @ [dash] @ y)
            = normalizeSegment tbl x @ [dash] @ normalizeSegment tbl y"
    if a: "\<forall>u \<in> set (x @ y). unat u < 128"
  proof -
    from a have ax: "\<forall>u \<in> set x. unat u < 128" and ay: "\<forall>u \<in> set y. unat u < 128"
      and axy: "\<forall>u \<in> set (x @ [dash] @ y). unat u < 128" by auto
    have dl: "asciiLower dash = dash" by (simp add: asciiLower_def)
    have "normalizeSegment tbl (x @ [dash] @ y)
        = replaceWhitespaceRuns (map asciiLower x @ [dash] @ map asciiLower y)"
      unfolding normalizeSegment_ascii [OF assms axy] by (simp add: dl)
    also have "\<dots> = replaceWhitespaceRuns (map asciiLower x) @ [dash]
        @ replaceWhitespaceRuns (map asciiLower y)"
      by (rule d)
    finally show ?thesis
      unfolding normalizeSegment_ascii [OF assms ax] normalizeSegment_ascii [OF assms ay] .
  qed
  have n: "normalizeSegment tbl (units lit) = replaceWhitespaceRuns (map asciiLower (units lit))"
    if "\<forall>u \<in> set (units lit). unat u < 128" for lit
    using assms that by (rule normalizeSegment_ascii)
  show "customNameTransform tbl [units ''Deep Sage'', units ''0''] = units ''deep-sage-0''"
    unfolding customNameTransform_def list.map
    by (subst n, simp add: unit_eval)+ (simp add: unit_eval)
  show "customNameTransform tbl [units ''A B'', units ''c-D''] = units ''a-b-c-d''"
    unfolding customNameTransform_def list.map
    by (subst n, simp add: unit_eval)+ (simp add: unit_eval)
  show "customNameTransform tbl [units ''text-size''] = units ''text-size''"
    unfolding customNameTransform_def list.map
    by (subst n, simp add: unit_eval)+ (simp add: unit_eval)
qed

theorem normalize_idempotent_witness:
  "normalizeSegment sampleLowercase
     (normalizeSegment sampleLowercase
        [codeUnit 0x130, codeUnit 0x3000, codeUnit 0xFEFF, codeUnit 0x41, codeUnit 0x3A3])
   = [codeUnit 0x69, codeUnit 0x307, codeUnit 0x2D, codeUnit 0x61, codeUnit 0x3C2]
   \<and> customNameTransform sampleLowercase [units ''Deep Sage'', units ''0''] = units ''deep-sage-0''"
  using normalize_idempotent [OF sample_lowercaseMappings,
      of "[codeUnit 0x130, codeUnit 0x3000, codeUnit 0xFEFF, codeUnit 0x41, codeUnit 0x3A3]"]
  unfolding sample_normalize by blast

section \<open>The run: outcomes and the engine log\<close>

lemma logged_Nil [simp]: "logged a s F []"
  by (simp add: logged_def)

lemma logged_append [simp]: "logged a s F (xs @ ys) \<longleftrightarrow> logged a s F xs \<and> logged a s F ys"
  by (auto simp: logged_def)

lemma logged_mono: "logged a s F xs \<Longrightarrow> F \<subseteq> G \<Longrightarrow> logged a s G xs"
  by (auto simp: logged_def list_all_iff)

lemma buildAllPlatforms_log:
  "buildAllPlatforms node f sd st = (thrown, st') \<Longrightarrow> engineLog st' = engineLog st @ [(f, sd)]"
  by (auto simp: buildAllPlatforms_def split: prod.splits)

lemma processTokenFile_log:
  assumes "processTokenFile node f all dir sel st = (r, st')"
  shows "\<exists>new. engineLog st' = engineLog st @ new \<and> length new \<le> 1
           \<and> logged all (\<lambda>_. sel) {f} new"
proof (cases "fst (processTokenFile node f all dir sel st) = r \<and> st' = st")
  case True
  then show ?thesis by simp
next
  case False
  with assms obtain S where
    "engineLog st' = engineLog st
        @ [(f, styleDictionaryConfig all dir (getOutputFileName f) sel S)]"
    by (auto simp: processTokenFile_def Let_def
        split: sum.splits prod.splits option.splits dest: buildAllPlatforms_log)
  then show ?thesis
    by (simp add: logged_def styleDictionaryConfig_def)
qed

lemma processTokenFile_result:
  "processTokenFile node f all dir sel st = (Inr r, st') \<Longrightarrow>
     inputPath r = f \<and> outputPath r = path_join node dir (getOutputFileName f)"
  by (auto simp: processTokenFile_def Let_def split: sum.splits prod.splits option.splits)

lemma processFiles_outcomes:
  "processFiles node sel files all dir (results, stats, st) = (results', stats', st') \<Longrightarrow>
     results' = results @ successes (outcomes node sel files all dir st)
   \<and> tokensProcessed stats' = tokensProcessed stats
        + sum_list (map tokenCount (successes (outcomes node sel files all dir st)))
   \<and> tokensSkipped stats' = tokensSkipped stats + failures (outcomes node sel files all dir st)
   \<and> st' = finalState node sel files all dir st"
proof (induction files arbitrary: results stats st)
  case Nil
  then show ?case by (simp add: successes_def failures_def)
next
  case (Cons f rest)
  obtain r st1 where p: "processTokenFile node f all dir (sel f) st = (r, st1)"
    by (cases "processTokenFile node f all dir (sel f) st")
  show ?case
  proof (cases r)
    case (Inl e)
    with p Cons.prems have
      "processFiles node sel rest all dir
         (results, stats \<lparr> tokensSkipped := tokensSkipped stats + 1 \<rparr>, st1)
       = (results', stats', st')" by simp
    from Cons.IH [OF this] p Inl show ?thesis
      by (simp add: successes_def failures_def)
  next
    case (Inr res)
    with p Cons.prems have
      "processFiles node sel rest all dir
         (results @ [res],
          stats \<lparr> tokensProcessed := tokensProcessed stats + tokenCount res,
                  outputTokenCounts := (outputTokenCounts stats)(outputPath res \<mapsto> tokenCount res) \<rparr>,
          st1)
       = (results', stats', st')" by simp
    from Cons.IH [OF this] p Inr show ?thesis
      by (simp add: successes_def failures_def)
  qed
qed

lemma finalState_log:
  "\<exists>new. engineLog (finalState node sel files all dir st) = engineLog st @ new
         \<and> logged all sel (set files) new"
proof (induction files arbitrary: st)
  case Nil
  then show ?case by simp
next
  case (Cons f rest)
  obtain r st1 where p: "processTokenFile node f all dir (sel f) st = (r, st1)"
    by (cases "processTokenFile node f all dir (sel f) st")
  from processTokenFile_log [OF p] obtain n1 where
    n1: "engineLog st1 = engineLog st @ n1" "logged all (\<lambda>_. sel f) {f} n1" by blast
  from Cons.IH [of st1] obtain n2 where
    n2: "engineLog (finalState node sel rest all dir st1) = engineLog st1 @ n2"
      "logged all sel (set rest) n2" by blast
  from n1(2) have "logged all sel (set (f # rest)) n1"
    by (auto simp: logged_def list_all_iff)
  moreover from n2(2) have "logged all sel (set (f # rest)) n2"
    by (rule logged_mono) auto
  ultimately show ?case using n1(1) n2(1) p by auto
qed

lemma outcomes_inputPath:
  "r \<in> set (successes (outcomes node sel files all dir st)) \<Longrightarrow> inputPath r \<in> set files"
proof (induction files arbitrary: st)
  case Nil
  then show ?case by (simp add: successes_def)
next
  case (Cons f rest)
  obtain o1 st1 where p: "processTokenFile node f all dir (sel f) st = (o1, st1)"
    by (cases "processTokenFile node f all dir (sel f) st")
  show ?case
  proof (cases "r \<in> set (successes (outcomes node sel rest all dir st1))")
    case True
    from Cons.IH [OF this] show ?thesis by simp
  next
    case False
    with Cons.prems p have "o1 = Inr r"
      by (cases o1) (auto simp: successes_def)
    with p processTokenFile_result [of node f all dir "sel f" st r st1] show ?thesis by simp
  qed
qed

lemma transformTokens_Inr:
  assumes "transformTokens node df outDir st0 = (Inr (results, stats), st)"
  shows "\<exists>st2 os1 os2 st3.
      engineLog st2 = engineLog st0
    \<and> os1 = outcomes node (\<lambda>f. '':root'') (outputFiles df) (allFiles df)
              (resolveOutputDir node outDir) st2
    \<and> st3 = finalState node (\<lambda>f. '':root'') (outputFiles df) (allFiles df)
              (resolveOutputDir node outDir) st2
    \<and> os2 = outcomes node themeSelector (themeFiles df) (allFiles df)
              (resolveOutputDir node outDir) st3
    \<and> st = finalState node themeSelector (themeFiles df) (allFiles df)
              (resolveOutputDir node outDir) st3
    \<and> results = successes os1 @ successes os2
    \<and> tokensProcessed stats = sum_list (map tokenCount (successes os1 @ successes os2))
    \<and> tokensSkipped stats = failures os1 + failures os2"
proof -
  let ?st1 = "st0 \<lparr> world :=
                  sd_registerTransform node CUSTOM_NAME_TRANSFORM
                    (customNameTransform (unicode_toLowercase node)) (world st0) \<rparr>"
  let ?dir = "resolveOutputDir node outDir"
  let ?mk = "if fs_existsSync node (world ?st1) ?dir then Inr (world ?st1)
             else fs_mkdirSync node (world ?st1) ?dir"
  from assms obtain w2 where w2: "?mk = Inr w2"
    by (cases ?mk) (auto simp: transformTokens_def Let_def)
  let ?st2 = "?st1 \<lparr> world := w2 \<rparr>"
  let ?stats0 = "\<lparr> tokensProcessed = 0, tokensSkipped = 0, outputTokenCounts = Map.empty \<rparr>"
  obtain r1 s1 st3 where a1:
    "processFiles node (\<lambda>f. '':root'') (outputFiles df) (allFiles df) ?dir ([], ?stats0, ?st2)
       = (r1, s1, st3)"
    by (metis prod_cases3)
  from assms w2 a1 have a2:
    "processFiles node themeSelector (themeFiles df) (allFiles df) ?dir (r1, s1, st3)
       = (results, stats, st)"
    by (simp add: transformTokens_def Let_def split: prod.splits)
  from processFiles_outcomes [OF a1] processFiles_outcomes [OF a2]
  show ?thesis
    by (intro exI [of _ ?st2]) simp
qed

lemma transformTokens_results:
  assumes "transformTokens node df outDir st0 = (Inr (results, stats), st)"
    and "r \<in> set results"
  shows "inputPath r \<in> set (outputFiles df) \<union> set (themeFiles df)"
proof -
  from transformTokens_Inr [OF assms(1)] obtain st2 st3 where
    "results = successes (outcomes node (\<lambda>f. '':root'') (outputFiles df) (allFiles df)
                 (resolveOutputDir node outDir) st2)
             @ successes (outcomes node themeSelector (themeFiles df) (allFiles df)
                 (resolveOutputDir node outDir) st3)"
    by blast
  with assms(2) outcomes_inputPath show ?thesis by fastforce
qed

lemma transformTokens_log:
  assumes "transformTokens node df outDir st0 = (r, st)"
  shows "\<exists>new1 new2. engineLog st = engineLog st0 @ new1 @ new2
     \<and> logged (allFiles df) (\<lambda>f. '':root'') (set (outputFiles df)) new1
     \<and> logged (allFiles df) themeSelector (set (themeFiles df)) new2"
proof (cases r)
  case (Inl e)
  with assms have "engineLog st = engineLog st0"
    by (auto simp: transformTokens_def Let_def split: sum.splits prod.splits if_splits)
  then show ?thesis by (intro exI [of _ "[]"]) simp
next
  case (Inr rs)
  obtain results stats where "rs = (results, stats)" by (cases rs)
  with Inr assms have t: "transformTokens node df outDir st0 = (Inr (results, stats), st)"
    by simp
  from transformTokens_Inr [OF t] obtain st2 st3 where
    s2: "engineLog st2 = engineLog st0" and
    s3: "st3 = finalState node (\<lambda>f. '':root'') (outputFiles df) (allFiles df)
              (resolveOutputDir node outDir) st2" and
    s4: "st = finalState node themeSelector (themeFiles df) (allFiles df)
              (resolveOutputDir node outDir) st3"
    by blast
  from finalState_log [of node "\<lambda>f. '':root''" "outputFiles df" "allFiles df"
      "resolveOutputDir node outDir" st2] s3 obtain new1 where
    n1: "engineLog st3 = engineLog st2 @ new1"
      "logged (allFiles df) (\<lambda>f. '':root'') (set (outputFiles df)) new1" by blast
  from finalState_log [of node themeSelector "themeFiles df" "allFiles df"
      "resolveOutputDir node outDir" st3] s4 obtain new2 where
    n2: "engineLog st = engineLog st3 @ new2"
      "logged (allFiles df) themeSelector (set (themeFiles df)) new2" by blast
  from n1 n2 s2 show ?thesis by auto
qed

lemma transformTokens_Inl:
  assumes "transformTokens node df outDir st0 = (Inl e, st)"
  shows "\<not> fs_existsSync node (world st) (resolveOutputDir node outDir)"
    and "fs_mkdirSync node (world st) (resolveOutputDir node outDir) = Inl e"
    and "engineLog st = engineLog st0"
  using assms
  by (auto simp: transformTokens_def Let_def split: sum.splits prod.splits if_splits)

section \<open>Discovery\<close>

lemma categorize_filter:
  "categorize fs (refs, themes, outs) =
     (refs @ filter (\<lambda>f. bucketOf f = Some Reference) fs,
      themes @ filter (\<lambda>f. bucketOf f = Some Theme) fs,
      outs @ filter (\<lambda>f. bucketOf f = Some Output) fs)"
  by (induction fs arbitrary: refs themes outs)
     (auto simp: bucketOf_def test_def REFERENCE_PATTERN_def THEME_PATTERN_def
        OUTPUT_PATTERN_def Let_def)

lemma discoverTokenFiles_Inr:
  assumes "discoverTokenFiles pjoin dir rootEntry = Inr df"
  shows "referenceFiles df = filter (\<lambda>f. bucketOf f = Some Reference) (foundFiles pjoin dir rootEntry)"
    and "themeFiles df = filter (\<lambda>f. bucketOf f = Some Theme) (foundFiles pjoin dir rootEntry)"
    and "outputFiles df = filter (\<lambda>f. bucketOf f = Some Output) (foundFiles pjoin dir rootEntry)"
    and "allFiles df = referenceFiles df @ themeFiles df @ outputFiles df"
  using assms
  by (auto simp: discoverTokenFiles_def foundFiles_def categorize_filter Let_def
      split: option.splits dirent.splits if_splits)

lemma discoverTokenFiles_Inl:
  "(\<exists>e. discoverTokenFiles pjoin dir rootEntry = Inl e) \<longleftrightarrow>
     (\<forall>f \<in> set (foundFiles pjoin dir rootEntry). bucketOf f = None)"
proof -
  have b: "bucketOf f = None \<longleftrightarrow>
      bucketOf f \<noteq> Some Reference \<and> bucketOf f \<noteq> Some Theme \<and> bucketOf f \<noteq> Some Output" for f
    by (cases "bucketOf f") (auto, metis bucket.exhaust)
  show ?thesis
    by (cases rootEntry; (simp add: discoverTokenFiles_def foundFiles_def; fail)?)
       (rename_tac d, case_tac d,
        auto simp: discoverTokenFiles_def foundFiles_def categorize_filter Let_def b
          filter_empty_conv)
qed

lemma bucketOf_None: "bucketOf f = None \<longleftrightarrow> \<not> isTokenFile f"
  by (auto simp: bucketOf_def isTokenFile_def test_def REFERENCE_PATTERN_def
      THEME_PATTERN_def OUTPUT_PATTERN_def)

text \<open>
  C9: discovery throws if and only if no regular file under the scanned root
  matches one of the three suffixes; that is, for a root that is a directory,
  if and only if the three buckets are empty, the error then being the one
  that reports that no token files were found.  When a file matches,
  discovery returns the classified set.
\<close>

theorem discovery_error_iff:
  "((\<exists>e. discoverTokenFiles pjoin dir rootEntry = Inl e)
      \<longleftrightarrow> (\<forall>f \<in> set (foundFiles pjoin dir rootEntry). \<not> isTokenFile f))
   \<and> (discoverTokenFiles pjoin dir (Some (Directory name entries)) = Inl (Error noTokenFilesMessage)
      \<longleftrightarrow> categorize (findFilesRecursive pjoin dir entries []) ([], [], []) = ([], [], []))
   \<and> ((\<exists>f \<in> set (foundFiles pjoin dir rootEntry). isTokenFile f) \<longrightarrow>
        (\<exists>refs themes outs.
           categorize (foundFiles pjoin dir rootEntry) ([], [], []) = (refs, themes, outs)
         \<and> discoverTokenFiles pjoin dir rootEntry
             = Inr \<lparr> outputFiles = outs, themeFiles = themes, referenceFiles = refs,
                     allFiles = refs @ themes @ outs \<rparr>))"
proof (intro conjI impI)
  show a: "(\<exists>e. discoverTokenFiles pjoin dir rootEntry = Inl e)
      \<longleftrightarrow> (\<forall>f \<in> set (foundFiles pjoin dir rootEntry). \<not> isTokenFile f)"
    using discoverTokenFiles_Inl [of pjoin dir rootEntry] by (simp add: bucketOf_None)
  show "discoverTokenFiles pjoin dir (Some (Directory name entries)) = Inl (Error noTokenFilesMessage)
      \<longleftrightarrow> categorize (findFilesRecursive pjoin dir entries []) ([], [], []) = ([], [], [])"
    by (auto simp: discoverTokenFiles_def Let_def split: prod.splits)
  assume "\<exists>f \<in> set (foundFiles pjoin dir rootEntry). isTokenFile f"
  with a obtain df where df: "discoverTokenFiles pjoin dir rootEntry = Inr df"
    by (cases "discoverTokenFiles pjoin dir rootEntry") auto
  then obtain n es where r: "rootEntry = Some (Directory n es)"
    by (auto simp: discoverTokenFiles_def split: option.splits dirent.splits)
  obtain refs themes outs where
    c: "categorize (foundFiles pjoin dir rootEntry) ([], [], []) = (refs, themes, outs)"
    by (metis prod_cases3)
  with df r have "df = \<lparr> outputFiles = outs, themeFiles = themes, referenceFiles = refs,
                     allFiles = refs @ themes @ outs \<rparr>"
    by (auto simp: discoverTokenFiles_def foundFiles_def Let_def split: if_splits)
  with df c show "\<exists>refs themes outs.
           categorize (foundFiles pjoin dir rootEntry) ([], [], []) = (refs, themes, outs)
         \<and> discoverTokenFiles pjoin dir rootEntry
             = Inr \<lparr> outputFiles = outs, themeFiles = themes, referenceFiles = refs,
                     allFiles = refs @ themes @ outs \<rparr>"
    by blast
qed

theorem discovery_error_iff_witness:
  "(\<exists>e. discoverTokenFiles (\<lambda>d n. d @ ''/'' @ n) ''/tmp/x''
           (Some (Directory ''x'' [File ''README.md'', Directory ''docs'' [File ''notes.json'']]))
         = Inl e)
   \<and> discoverTokenFiles (\<lambda>d n. d @ ''/'' @ n) ''/tmp/x''
        (Some (Directory ''x''
           [File ''README.md'',
            Directory ''tokens'' [File ''primitive.ref.inp.json'', File ''core.inp.json'']]))
       = Inr \<lparr> outputFiles = [''/tmp/x/tokens/core.inp.json''], themeFiles = [],
               referenceFiles = [''/tmp/x/tokens/primitive.ref.inp.json''],
               allFiles = [''/tmp/x/tokens/primitive.ref.inp.json'',
                           ''/tmp/x/tokens/core.inp.json''] \<rparr>"
proof -
  let ?pj = "\<lambda>d n. d @ ''/'' @ n :: string"
  let ?t1 = "Some (Directory ''x'' [File ''README.md'', Directory ''docs'' [File ''notes.json'']])"
  let ?t2 = "Some (Directory ''x''
           [File ''README.md'',
            Directory ''tokens'' [File ''primitive.ref.inp.json'', File ''core.inp.json'']])"
  have n1: "\<forall>f \<in> set (foundFiles ?pj ''/tmp/x'' ?t1). \<not> isTokenFile f" by code_simp
  have n2: "\<exists>f \<in> set (foundFiles ?pj ''/tmp/x'' ?t2). isTokenFile f" by code_simp
  have c2: "categorize (foundFiles ?pj ''/tmp/x'' ?t2) ([], [], [])
      = ([''/tmp/x/tokens/primitive.ref.inp.json''], [], [''/tmp/x/tokens/core.inp.json''])"
    by code_simp
  from discovery_error_iff [of ?pj "''/tmp/x''" ?t1] n1
  have "\<exists>e. discoverTokenFiles ?pj ''/tmp/x'' ?t1 = Inl e" by blast
  moreover from discovery_error_iff [of ?pj "''/tmp/x''" ?t2] n2 c2
  have "discoverTokenFiles ?pj ''/tmp/x'' ?t2
       = Inr \<lparr> outputFiles = [''/tmp/x/tokens/core.inp.json''], themeFiles = [],
               referenceFiles = [''/tmp/x/tokens/primitive.ref.inp.json''],
               allFiles = [''/tmp/x/tokens/primitive.ref.inp.json'',
                           ''/tmp/x/tokens/core.inp.json''] \<rparr>"
    by auto
  ultimately show ?thesis by blast
qed

lemma bucketOf_ref:
  "basename f = X @ ''.ref.inp.json'' \<Longrightarrow> bucketOf f = Some Reference"
  by (simp add: bucketOf_def endsWith_def)

text \<open>
  C3: every regular file found under the scanned root goes to the bucket of
  its most specific suffix and to no other: the three lists are the found
  files filtered by \<open>bucketOf\<close>, in the order found.  The three buckets are
  pairwise disjoint.  A file \<^verbatim>\<open>X.ref.inp.json\<close> is in the reference bucket and in
  no other, and a run of \<open>transformTokens\<close> records no result for it and makes
  no engine invocation for it.
\<close>

theorem classification_buckets:
  assumes "discoverTokenFiles pjoin dir rootEntry = Inr df"
  shows "referenceFiles df
           = filter (\<lambda>f. bucketOf f = Some Reference) (foundFiles pjoin dir rootEntry)
    \<and> themeFiles df = filter (\<lambda>f. bucketOf f = Some Theme) (foundFiles pjoin dir rootEntry)
    \<and> outputFiles df = filter (\<lambda>f. bucketOf f = Some Output) (foundFiles pjoin dir rootEntry)
    \<and> set (referenceFiles df) \<inter> set (themeFiles df) = {}
    \<and> set (referenceFiles df) \<inter> set (outputFiles df) = {}
    \<and> set (themeFiles df) \<inter> set (outputFiles df) = {}
    \<and> (\<forall>f X. f \<in> set (foundFiles pjoin dir rootEntry) \<and> basename f = X @ ''.ref.inp.json''
          \<longrightarrow> f \<in> set (referenceFiles df) \<and> f \<notin> set (themeFiles df)
              \<and> f \<notin> set (outputFiles df)
              \<and> (\<forall>(node :: 'w node) outDir st0 results stats st.
                    transformTokens node df outDir st0 = (Inr (results, stats), st)
                    \<longrightarrow> f \<notin> inputPath ` set results
                        \<and> (\<forall>cfg. (f, cfg) \<in> set (engineLog st)
                              \<longrightarrow> (f, cfg) \<in> set (engineLog st0))))"
proof -
  note d = discoverTokenFiles_Inr [OF assms]
  have "f \<notin> inputPath ` set results
          \<and> (\<forall>cfg. (f, cfg) \<in> set (engineLog st) \<longrightarrow> (f, cfg) \<in> set (engineLog st0))"
    if f: "f \<in> set (foundFiles pjoin dir rootEntry)" "basename f = X @ ''.ref.inp.json''"
      and t: "transformTokens node df outDir st0 = (Inr (results, stats), st)"
    for f X and node :: "'w node" and outDir st0 results stats st
  proof -
    from bucketOf_ref [OF f(2)] d(2,3) have
      nf: "f \<notin> set (outputFiles df)" "f \<notin> set (themeFiles df)" by simp_all
    from transformTokens_results [OF t] nf have a: "f \<notin> inputPath ` set results" by blast
    from transformTokens_log [OF t] obtain new1 new2 where
      l: "engineLog st = engineLog st0 @ new1 @ new2"
        "logged (allFiles df) (\<lambda>f. '':root'') (set (outputFiles df)) new1"
        "logged (allFiles df) themeSelector (set (themeFiles df)) new2" by blast
    from l(2,3) nf have "\<forall>cfg. (f, cfg) \<notin> set new1 \<and> (f, cfg) \<notin> set new2"
      by (auto simp: logged_def list_all_iff)
    with l(1) a show ?thesis by auto
  qed
  moreover have "f \<in> set (referenceFiles df) \<and> f \<notin> set (themeFiles df)
              \<and> f \<notin> set (outputFiles df)"
    if "f \<in> set (foundFiles pjoin dir rootEntry)" "basename f = X @ ''.ref.inp.json''" for f X
    using bucketOf_ref [OF that(2)] that(1) d by simp
  ultimately show ?thesis using d(1,2,3) by (intro conjI; (blast | auto))
qed

theorem classification_buckets_witness:
  "referenceFiles
     \<lparr> outputFiles = [''/t/core.inp.json''], themeFiles = [''/t/dark.theme.inp.json''],
       referenceFiles = [''/t/primitive.ref.inp.json''],
       allFiles = [''/t/primitive.ref.inp.json'', ''/t/dark.theme.inp.json'',
                   ''/t/core.inp.json''] \<rparr>
   = filter (\<lambda>f. bucketOf f = Some Reference)
       (foundFiles (\<lambda>d n. d @ ''/'' @ n) ''/t''
          (Some (Directory ''t'' [File ''core.inp.json'', File ''primitive.ref.inp.json'',
                                  File ''dark.theme.inp.json'', File ''notes.txt''])))
   \<and> ''/t/primitive.ref.inp.json''
       \<notin> set (outputFiles
           \<lparr> outputFiles = [''/t/core.inp.json''], themeFiles = [''/t/dark.theme.inp.json''],
             referenceFiles = [''/t/primitive.ref.inp.json''],
             allFiles = [''/t/primitive.ref.inp.json'', ''/t/dark.theme.inp.json'',
                         ''/t/core.inp.json''] \<rparr>)"
proof -
  let ?pj = "\<lambda>d n. d @ ''/'' @ n :: string"
  let ?t = "Some (Directory ''t'' [File ''core.inp.json'', File ''primitive.ref.inp.json'',
                                  File ''dark.theme.inp.json'', File ''notes.txt''])"
  have "discoverTokenFiles ?pj ''/t'' ?t
    = Inr \<lparr> outputFiles = [''/t/core.inp.json''], themeFiles = [''/t/dark.theme.inp.json''],
       referenceFiles = [''/t/primitive.ref.inp.json''],
       allFiles = [''/t/primitive.ref.inp.json'', ''/t/dark.theme.inp.json'',
                   ''/t/core.inp.json''] \<rparr>"
    by code_simp
  note c = classification_buckets [OF this]
  have f: "''/t/primitive.ref.inp.json'' \<in> set (foundFiles ?pj ''/t'' ?t)" by code_simp
  have b: "basename ''/t/primitive.ref.inp.json'' = ''primitive'' @ ''.ref.inp.json''"
    by code_simp
  from c f b show ?thesis by blast
qed

section \<open>Processing one file\<close>

lemma entriesOf_Inr: "objectEntries doc = Inr es \<Longrightarrow> entriesOf doc = es"
  by (simp add: entriesOf_def)

lemma validateDTCGFormat_view:
  "objectEntries doc = Inr es \<Longrightarrow>
     validateDTCGFormat doc fileName
       = (if legacyBelowRoot doc then Inl (Error (legacyMessage fileName)) else Inr ())"
  using hasLegacyTokenFormat_view(1) [of doc]
  by (simp add: validateDTCGFormat_def legacyBelowRoot_def entriesOf_Inr
      del: hasLegacyTokenFormat.simps)

lemma validateDTCGFormat_Inr:
  "validateDTCGFormat doc fileName = Inr u \<Longrightarrow> \<exists>es. objectEntries doc = Inr es"
  by (cases "objectEntries doc") (auto simp: validateDTCGFormat_def)

lemma walks_return:
  "objectEntries doc = Inr es \<Longrightarrow>
     \<exists>c S. countTokens doc 0 = Inr c \<and> extractTokenPaths doc [] {} = Inr S"
  using countTokens_sum(1) [of doc 0] extractTokenPaths_image(1) [of doc "[]" "{}"]
  by (simp del: countTokens.simps extractTokenPaths.simps)

lemma processTokenFile_built:
  assumes "readJSON node (world st) f = Inr doc"
    and "validateDTCGFormat doc (basename f) = Inr ()"
    and "countTokens doc 0 = Inr c" and "extractTokenPaths doc [] {} = Inr S"
  shows "processTokenFile node f all dir sel st = built node f all dir sel st c S"
  using assms
  by (simp add: processTokenFile_def built_def buildAllPlatforms_def Let_def
      split: prod.splits option.splits
      del: countTokens.simps extractTokenPaths.simps)


lemma processTokenFile_invalid:
  assumes "readJSON node (world st) f = Inr doc"
    and "validateDTCGFormat doc (basename f) = Inl e"
  shows "processTokenFile node f all dir sel st = (Inl e, st)"
  using assms by (simp add: processTokenFile_def Let_def)

lemma processTokenFile_unread:
  assumes "readJSON node (world st) f = Inl e"
  shows "processTokenFile node f all dir sel st = (Inl e, st)"
    and "processTokenFile_dist node f all dir sel st = (Inl e, st)"
  using assms by (simp_all add: processTokenFile_def processTokenFile_dist_def Let_def)


section \<open>The engine invocation\<close>

lemma sample_discovery:
  "discoverTokenFiles (\<lambda>d n. d @ ''/'' @ n) ''/t'' sampleTree = Inr sampleDiscovered"
  unfolding sampleTree_def sampleDiscovered_def by code_simp

lemma processTokenFile_engineCall:
  "snd (processTokenFile node f all dir sel st) =
     (case engineCall node f all dir sel (world st) of
        None \<Rightarrow> st
      | Some cfg \<Rightarrow> \<lparr> world = snd (sd_build node cfg (world st)),
                      engineLog = engineLog st @ [(f, cfg)] \<rparr>)"
proof (cases "readJSON node (world st) f")
  case (Inl e)
  from processTokenFile_unread(1) [OF this] Inl show ?thesis
    by (simp add: engineCall_def)
next
  case (Inr doc)
  show ?thesis
  proof (cases "validateDTCGFormat doc (basename f)")
    case (Inl e)
    from processTokenFile_invalid [OF Inr this] Inr Inl show ?thesis
      by (simp add: engineCall_def)
  next
    case v: (Inr u)
    then obtain es where "objectEntries doc = Inr es" using validateDTCGFormat_Inr by blast
    from walks_return [OF this] obtain c S where
      w: "countTokens doc 0 = Inr c" "extractTokenPaths doc [] {} = Inr S" by blast
    from v have "validateDTCGFormat doc (basename f) = Inr ()" by simp
    from processTokenFile_built [OF Inr this w] Inr v w(2) show ?thesis
      by (simp add: engineCall_def built_def Let_def del: extractTokenPaths.simps)
  qed
qed

lemma finalState_engineCalls:
  "finalState node sel files all dir st =
     \<lparr> world = snd (engineCalls node sel files all dir (world st)),
       engineLog = engineLog st @ fst (engineCalls node sel files all dir (world st)) \<rparr>"
proof (induction files arbitrary: st)
  case Nil
  then show ?case by simp
next
  case (Cons f rest)
  show ?case
    by (simp add: processTokenFile_engineCall Cons.IH split: option.splits prod.splits)
qed

lemma transformTokens_runCalls:
  assumes "transformTokens node df outDir st0 = (r, st)"
  shows "engineLog st = engineLog st0 @ runCalls node df outDir st0"
proof -
  let ?w1 = "sd_registerTransform node CUSTOM_NAME_TRANSFORM
               (customNameTransform (unicode_toLowercase node)) (world st0)"
  let ?st1 = "st0 \<lparr> world := ?w1 \<rparr>"
  let ?dir = "resolveOutputDir node outDir"
  let ?mk = "if fs_existsSync node ?w1 ?dir then Inr ?w1 else fs_mkdirSync node ?w1 ?dir"
  show ?thesis
  proof (cases ?mk)
    case (Inl e)
    with assms have "engineLog st = engineLog st0"
      by (auto simp: transformTokens_def Let_def split: if_splits)
    moreover from Inl have "runCalls node df outDir st0 = []"
      by (simp add: runCalls_def Let_def)
    ultimately show ?thesis by simp
  next
    case (Inr w2)
    let ?st2 = "?st1 \<lparr> world := w2 \<rparr>"
    let ?stats0 = "\<lparr> tokensProcessed = 0, tokensSkipped = 0, outputTokenCounts = Map.empty \<rparr>"
    obtain r1 s1 st3 where a1:
      "processFiles node (\<lambda>f. '':root'') (outputFiles df) (allFiles df) ?dir ([], ?stats0, ?st2)
         = (r1, s1, st3)"
      by (metis prod_cases3)
    obtain r2 s2 st4 where a2:
      "processFiles node themeSelector (themeFiles df) (allFiles df) ?dir (r1, s1, st3)
         = (r2, s2, st4)"
      by (metis prod_cases3)
    from assms Inr a1 a2 have st: "st = st4"
      by (simp add: transformTokens_def Let_def split: if_splits)
    from processFiles_outcomes [OF a1] have
      s3: "st3 = finalState node (\<lambda>f. '':root'') (outputFiles df) (allFiles df) ?dir ?st2"
      by simp
    from processFiles_outcomes [OF a2] have
      s4: "st4 = finalState node themeSelector (themeFiles df) (allFiles df) ?dir st3"
      by simp
    have rc: "runCalls node df outDir st0
      = fst (engineCalls node (\<lambda>f. '':root'') (outputFiles df) (allFiles df) ?dir w2)
        @ fst (engineCalls node themeSelector (themeFiles df) (allFiles df) ?dir
                (snd (engineCalls node (\<lambda>f. '':root'') (outputFiles df) (allFiles df) ?dir w2)))"
      using Inr by (simp add: runCalls_def Let_def split: prod.splits)
    show ?thesis
      unfolding st s4 s3 rc
      by (simp add: finalState_engineCalls)
  qed
qed

lemma reachesEngine_cong:
  "\<forall>p. readJSON node w p = readJSON node w0 p \<Longrightarrow> reachesEngine node w f = reachesEngine node w0 f"
  by (simp add: reachesEngine_def)

lemma engineCall_None:
  "engineCall node f all dir sel w = None \<Longrightarrow> \<not> reachesEngine node w f"
proof (cases "readJSON node w f")
  case (Inl e)
  then show ?thesis by (simp add: reachesEngine_def)
next
  case (Inr doc)
  assume n: "engineCall node f all dir sel w = None"
  show ?thesis
  proof (cases "validateDTCGFormat doc (basename f)")
    case (Inl e)
    with Inr show ?thesis by (simp add: reachesEngine_def)
  next
    case v: (Inr u)
    then obtain es where "objectEntries doc = Inr es" using validateDTCGFormat_Inr by blast
    from walks_return [OF this] obtain c S where "extractTokenPaths doc [] {} = Inr S" by blast
    with Inr v n show ?thesis by (simp add: engineCall_def del: extractTokenPaths.simps)
  qed
qed

lemma engineCall_Some:
  assumes "engineCall node f all dir sel w = Some cfg"
  shows "reachesEngine node w f" and "ownCall node w all (f, cfg)" and "selector cfg = sel"
  using assms
  by (auto simp: engineCall_def reachesEngine_def ownCall_def styleDictionaryConfig_def
      split: sum.splits simp del: extractTokenPaths.simps)

lemma ownCall_cong:
  "\<forall>p. readJSON node w p = readJSON node w0 p \<Longrightarrow> ownCall node w all e = ownCall node w0 all e"
  by (simp add: ownCall_def)

lemma engineCalls_stable:
  assumes "stableReads node" and "\<forall>p. readJSON node w p = readJSON node w0 p"
  shows "map fst (fst (engineCalls node sel files all dir w))
           = filter (reachesEngine node w0) files
     \<and> list_all (ownCall node w0 all) (fst (engineCalls node sel files all dir w))
     \<and> (\<forall>p. readJSON node (snd (engineCalls node sel files all dir w)) p = readJSON node w0 p)"
  using assms(2)
proof (induction files arbitrary: w)
  case Nil
  then show ?case by simp
next
  case (Cons f rest)
  show ?case
  proof (cases "engineCall node f all dir (sel f) w")
    case None
    from engineCall_None [OF None] reachesEngine_cong [OF Cons.prems]
    have "\<not> reachesEngine node w0 f" by simp
    with None Cons.IH [OF Cons.prems] show ?thesis by simp
  next
    case (Some cfg)
    from engineCall_Some [OF Some] reachesEngine_cong [OF Cons.prems]
      ownCall_cong [OF Cons.prems]
    have r: "reachesEngine node w0 f" "ownCall node w0 all (f, cfg)" by simp_all
    from assms(1) Cons.prems have
      "\<forall>p. readJSON node (snd (sd_build node cfg w)) p = readJSON node w0 p"
      by (simp add: stableReads_def)
    note ih = Cons.IH [OF this]
    obtain calls w' where
      c: "engineCalls node sel rest all dir (snd (sd_build node cfg w)) = (calls, w')"
      by (cases "engineCalls node sel rest all dir (snd (sd_build node cfg w))")
    from ih Some r c show ?thesis by simp
  qed
qed

lemma runCalls_stable:
  assumes "stableReads node"
    and "transformTokens node df outDir st0 = (Inr (results, stats), st)"
  shows "map fst (runCalls node df outDir st0)
           = filter (reachesEngine node (world st0)) (outputFiles df @ themeFiles df)"
    and "list_all (ownCall node (world st0) (allFiles df)) (runCalls node df outDir st0)"
proof -
  let ?w1 = "sd_registerTransform node CUSTOM_NAME_TRANSFORM
               (customNameTransform (unicode_toLowercase node)) (world st0)"
  let ?dir = "resolveOutputDir node outDir"
  let ?mk = "if fs_existsSync node ?w1 ?dir then Inr ?w1 else fs_mkdirSync node ?w1 ?dir"
  from assms(2) obtain w2 where w2: "?mk = Inr w2"
    by (cases ?mk) (auto simp: transformTokens_def Let_def split: if_splits)
  from assms(1) have r1: "\<forall>p. readJSON node ?w1 p = readJSON node (world st0) p"
    by (simp add: stableReads_def)
  have r2: "\<forall>p. readJSON node w2 p = readJSON node (world st0) p"
  proof (cases "fs_existsSync node ?w1 ?dir")
    case True
    with w2 r1 show ?thesis by simp
  next
    case False
    with w2 have "fs_mkdirSync node ?w1 ?dir = Inr w2" by simp
    with assms(1) have "\<forall>p. readJSON node w2 p = readJSON node ?w1 p"
      unfolding stableReads_def by blast
    with r1 show ?thesis by simp
  qed
  let ?c1 = "engineCalls node (\<lambda>f. '':root'') (outputFiles df) (allFiles df) ?dir w2"
  let ?c2 = "engineCalls node themeSelector (themeFiles df) (allFiles df) ?dir (snd ?c1)"
  note e1 = engineCalls_stable [OF assms(1) r2, of "\<lambda>f. '':root''" "outputFiles df"
      "allFiles df" ?dir]
  from e1 have r3: "\<forall>p. readJSON node (snd ?c1) p = readJSON node (world st0) p" by blast
  note e2 = engineCalls_stable [OF assms(1) r3, of themeSelector "themeFiles df"
      "allFiles df" ?dir]
  have rc: "runCalls node df outDir st0 = fst ?c1 @ fst ?c2"
    using w2 by (simp add: runCalls_def Let_def split: prod.splits)
  from e1 e2 show "map fst (runCalls node df outDir st0)
           = filter (reachesEngine node (world st0)) (outputFiles df @ themeFiles df)"
    unfolding rc by simp
  from e1 e2 show "list_all (ownCall node (world st0) (allFiles df)) (runCalls node df outDir st0)"
    unfolding rc by simp
qed


lemma sample_reaches:
  "filter (reachesEngine (sampleNode sampleFiles) ())
     (outputFiles sampleDiscovered @ themeFiles sampleDiscovered)
   = [''/t/core.inp.json'', ''/t/dark.theme.inp.json'']"
  by code_simp

lemma sample_stable: "stableReads (sampleNode files)"
  by (simp add: stableReads_def sampleNode_def)

text \<open>
  C2: the source list handed on is \<open>allFiles\<close>, which is reference, then theme,
  then output.  A call of \<open>processTokenFile\<close> for a file whose document is read
  and passes validation invokes the engine exactly once, with the source list
  it was given and with a filter that accepts a token path if and only if its
  dot-join is in the path set extracted from the document of that file; a call
  for any other file does not invoke the engine.  A run of \<open>transformTokens\<close>
  adds to the log exactly the invocations due for its output files and then
  its theme files, one for each file that is read and passes validation, in
  order, and nothing else.  Where registering the transform, making the output
  directory and building leave what the files hold, the files of the added
  entries are the output files and then the theme files that are read and pass
  validation, each as often as it is listed, and every entry has \<open>allFiles\<close> as
  its source list and the filter of the document of its own file.  Every
  invocation of any run has the whole of \<open>allFiles\<close> as its source list.
\<close>

theorem engine_invoked_once:
  assumes "discoverTokenFiles pjoin dir rootEntry = Inr df"
  shows "allFiles df = referenceFiles df @ themeFiles df @ outputFiles df
    \<and> (\<forall>(node :: 'w node) f outDir sel (st :: 'w state) doc.
          readJSON node (world st) f = Inr doc
            \<and> validateDTCGFormat doc (basename f) = Inr ()
          \<longrightarrow> (\<exists>S cfg.
                 extractTokenPaths doc [] {} = Inr S
               \<and> engineLog (snd (processTokenFile node f (allFiles df) outDir sel st))
                   = engineLog st @ [(f, cfg)]
               \<and> source cfg = allFiles df
               \<and> destination cfg = getOutputFileName f
               \<and> selector cfg = sel
               \<and> (\<forall>tokenPath. filter_fn cfg tokenPath \<longleftrightarrow> join ''.'' tokenPath \<in> S)))
    \<and> (\<forall>(node :: 'w node) f outDir sel (st :: 'w state).
          \<not> (\<exists>doc. readJSON node (world st) f = Inr doc
                   \<and> validateDTCGFormat doc (basename f) = Inr ())
          \<longrightarrow> engineLog (snd (processTokenFile node f (allFiles df) outDir sel st))
                = engineLog st)
    \<and> (\<forall>(node :: 'w node) outDir (st0 :: 'w state) r st.
          transformTokens node df outDir st0 = (r, st)
          \<longrightarrow> engineLog st = engineLog st0 @ runCalls node df outDir st0)
    \<and> (\<forall>(node :: 'w node) outDir (st0 :: 'w state) results stats st.
          stableReads node
            \<and> transformTokens node df outDir st0 = (Inr (results, stats), st)
          \<longrightarrow> (\<exists>new. engineLog st = engineLog st0 @ new
                 \<and> map fst new = filter (reachesEngine node (world st0))
                                   (outputFiles df @ themeFiles df)
                 \<and> list_all (ownCall node (world st0) (allFiles df)) new))
    \<and> (\<forall>(node :: 'w node) outDir (st0 :: 'w state) r st.
          transformTokens node df outDir st0 = (r, st)
          \<longrightarrow> (\<exists>new. engineLog st = engineLog st0 @ new
                     \<and> list_all (\<lambda>entry. source (snd entry) = allFiles df) new))"
proof (intro conjI allI impI)
  show "allFiles df = referenceFiles df @ themeFiles df @ outputFiles df"
    by (rule discoverTokenFiles_Inr(4) [OF assms])
next
  fix node :: "'w node" and f outDir sel and st :: "'w state" and doc
  assume a: "readJSON node (world st) f = Inr doc
            \<and> validateDTCGFormat doc (basename f) = Inr ()"
  then obtain es where es: "objectEntries doc = Inr es"
    using validateDTCGFormat_Inr by blast
  from walks_return [OF es] obtain c S where
    w: "countTokens doc 0 = Inr c" "extractTokenPaths doc [] {} = Inr S" by blast
  let ?cfg = "styleDictionaryConfig (allFiles df) outDir (getOutputFileName f) sel S"
  from a w have "processTokenFile node f (allFiles df) outDir sel st
      = built node f (allFiles df) outDir sel st c S"
    by (intro processTokenFile_built) simp_all
  then have "engineLog (snd (processTokenFile node f (allFiles df) outDir sel st))
      = engineLog st @ [(f, ?cfg)]"
    by (simp add: built_def Let_def)
  moreover have "source ?cfg = allFiles df" "destination ?cfg = getOutputFileName f"
    "selector ?cfg = sel"
    "\<forall>tokenPath. filter_fn ?cfg tokenPath \<longleftrightarrow> join ''.'' tokenPath \<in> S"
    by (simp_all add: styleDictionaryConfig_def)
  ultimately show "\<exists>S cfg.
                 extractTokenPaths doc [] {} = Inr S
               \<and> engineLog (snd (processTokenFile node f (allFiles df) outDir sel st))
                   = engineLog st @ [(f, cfg)]
               \<and> source cfg = allFiles df
               \<and> destination cfg = getOutputFileName f
               \<and> selector cfg = sel
               \<and> (\<forall>tokenPath. filter_fn cfg tokenPath \<longleftrightarrow> join ''.'' tokenPath \<in> S)"
    using w(2) by blast
next
  fix node :: "'w node" and f outDir sel and st :: "'w state"
  assume n: "\<not> (\<exists>doc. readJSON node (world st) f = Inr doc
                   \<and> validateDTCGFormat doc (basename f) = Inr ())"
  show "engineLog (snd (processTokenFile node f (allFiles df) outDir sel st)) = engineLog st"
  proof (cases "readJSON node (world st) f")
    case (Inl e)
    from processTokenFile_unread(1) [OF this] show ?thesis by simp
  next
    case (Inr doc)
    with n obtain e where "validateDTCGFormat doc (basename f) = Inl e"
      by (cases "validateDTCGFormat doc (basename f)") auto
    from processTokenFile_invalid [OF Inr this] show ?thesis by simp
  qed
next
  fix node :: "'w node" and outDir and st0 :: "'w state" and r st
  assume "transformTokens node df outDir st0 = (r, st)"
  then show "engineLog st = engineLog st0 @ runCalls node df outDir st0"
    by (rule transformTokens_runCalls)
next
  fix node :: "'w node" and outDir and st0 :: "'w state" and results stats st
  assume a: "stableReads node
            \<and> transformTokens node df outDir st0 = (Inr (results, stats), st)"
  then have s: "stableReads node"
    and t: "transformTokens node df outDir st0 = (Inr (results, stats), st)" by simp_all
  from transformTokens_runCalls [OF t] runCalls_stable [OF s t]
  show "\<exists>new. engineLog st = engineLog st0 @ new
                 \<and> map fst new = filter (reachesEngine node (world st0))
                                   (outputFiles df @ themeFiles df)
                 \<and> list_all (ownCall node (world st0) (allFiles df)) new"
    by blast
next
  fix node :: "'w node" and outDir and st0 :: "'w state" and r st
  assume "transformTokens node df outDir st0 = (r, st)"
  from transformTokens_log [OF this] obtain new1 new2 where
    l: "engineLog st = engineLog st0 @ new1 @ new2"
      "logged (allFiles df) (\<lambda>f. '':root'') (set (outputFiles df)) new1"
      "logged (allFiles df) themeSelector (set (themeFiles df)) new2" by blast
  from l(2,3) have "list_all (\<lambda>entry. source (snd entry) = allFiles df) (new1 @ new2)"
    by (auto simp: logged_def list_all_iff)
  with l(1) show "\<exists>new. engineLog st = engineLog st0 @ new
                     \<and> list_all (\<lambda>entry. source (snd entry) = allFiles df) new"
    by auto
qed

theorem engine_invoked_once_witness:
  "\<exists>results stats st new.
      transformTokens (sampleNode sampleFiles) sampleDiscovered ''/out''
        \<lparr> world = (), engineLog = [] \<rparr> = (Inr (results, stats), st)
    \<and> engineLog st = new
    \<and> map fst new = [''/t/core.inp.json'', ''/t/dark.theme.inp.json'']
    \<and> list_all (\<lambda>entry. source (snd entry)
                  = [''/t/primitive.ref.inp.json'', ''/t/dark.theme.inp.json'',
                     ''/t/old.inp.json'', ''/t/core.inp.json'']) new
    \<and> filter_fn (snd (hd new)) [''mantine'', ''primary'']
    \<and> \<not> filter_fn (snd (hd new)) [''bg'']"
proof -
  let ?st0 = "\<lparr> world = (), engineLog = [] \<rparr> :: unit state"
  let ?node = "sampleNode sampleFiles"
  let ?doc = "JObj [(''mantine'', JObj [(''primary'', JObj [(''$value'', JStr ''{color.primary}'')])])]"
  obtain r st where t: "transformTokens ?node sampleDiscovered ''/out'' ?st0 = (r, st)"
    by (cases "transformTokens ?node sampleDiscovered ''/out'' ?st0")
  have ex: "fs_existsSync ?node w p" for w p by (simp add: sampleNode_def)
  have "\<exists>results stats. r = Inr (results, stats)"
  proof (cases r)
    case (Inl e)
    with t transformTokens_Inl(1) [of ?node sampleDiscovered "''/out''" ?st0 e st] ex
    show ?thesis by simp
  next
    case (Inr rs)
    then show ?thesis by (cases rs) simp
  qed
  then obtain results stats where
    t': "transformTokens ?node sampleDiscovered ''/out'' ?st0 = (Inr (results, stats), st)"
    using t by blast
  note c2 = engine_invoked_once [OF sample_discovery, THEN conjunct2, THEN conjunct2,
      THEN conjunct2, THEN conjunct2, THEN conjunct1, rule_format,
      of ?node "''/out''" ?st0 results stats st]
  from c2 [OF conjI [OF sample_stable t']] obtain new where
    n: "engineLog st = engineLog ?st0 @ new"
      "map fst new = filter (reachesEngine ?node (world ?st0))
                       (outputFiles sampleDiscovered @ themeFiles sampleDiscovered)"
      "list_all (ownCall ?node (world ?st0) (allFiles sampleDiscovered)) new"
    by blast
  from n(2) have f: "map fst new = [''/t/core.inp.json'', ''/t/dark.theme.inp.json'']"
    using sample_reaches by simp
  then obtain cfg1 cfg2 where
    new: "new = [(''/t/core.inp.json'', cfg1), (''/t/dark.theme.inp.json'', cfg2)]"
    by (cases new; cases "tl new"; cases "tl (tl new)") auto
  from n(3) have src: "list_all (\<lambda>entry. source (snd entry)
                  = [''/t/primitive.ref.inp.json'', ''/t/dark.theme.inp.json'',
                     ''/t/old.inp.json'', ''/t/core.inp.json'']) new"
    unfolding new by (simp add: ownCall_def sampleDiscovered_def)
  have rd: "readJSON ?node () ''/t/core.inp.json'' = Inr ?doc"
    by (simp add: sampleNode_def sampleFiles_def)
  have x: "extractTokenPaths ?doc [] {} = Inr {''mantine.primary''}" by simp
  from n(3) have "\<exists>doc S. readJSON ?node () ''/t/core.inp.json'' = Inr doc
            \<and> extractTokenPaths doc [] {} = Inr S
            \<and> (\<forall>tokenPath. filter_fn cfg1 tokenPath \<longleftrightarrow> join ''.'' tokenPath \<in> S)"
    unfolding new by (simp add: ownCall_def)
  with rd x have fl: "\<forall>tokenPath. filter_fn cfg1 tokenPath
      \<longleftrightarrow> join ''.'' tokenPath \<in> {''mantine.primary''}"
    by (simp del: extractTokenPaths.simps)
  then have "filter_fn (snd (hd new)) [''mantine'', ''primary'']"
    "\<not> filter_fn (snd (hd new)) [''bg'']"
    unfolding new by simp_all
  with t' n(1) f src have
    "transformTokens ?node sampleDiscovered ''/out'' ?st0 = (Inr (results, stats), st)
    \<and> engineLog st = new
    \<and> map fst new = [''/t/core.inp.json'', ''/t/dark.theme.inp.json'']
    \<and> list_all (\<lambda>entry. source (snd entry)
                  = [''/t/primitive.ref.inp.json'', ''/t/dark.theme.inp.json'',
                     ''/t/old.inp.json'', ''/t/core.inp.json'']) new
    \<and> filter_fn (snd (hd new)) [''mantine'', ''primary'']
    \<and> \<not> filter_fn (snd (hd new)) [''bg'']" by simp
  then show ?thesis by (intro exI)
qed

section \<open>Failures of single files\<close>

lemma length_outcomes [simp]:
  "length (outcomes node sel files all dir st) = length files"
  by (induction files arbitrary: st) (auto split: prod.splits)

lemma successes_failures:
  "length (successes os) + failures os = length os"
  by (induction os) (auto simp: successes_def failures_def)

lemma successes_append [simp]: "successes (xs @ ys) = successes xs @ successes ys"
  by (simp add: successes_def)

lemma failures_append [simp]: "failures (xs @ ys) = failures xs + failures ys"
  by (simp add: failures_def)

lemma transformTokens_runOutcomes:
  assumes "transformTokens node df outDir st0 = (Inr (results, stats), st)"
  shows "results = successes (runOutcomes node df outDir st0)"
    and "tokensProcessed stats = sum_list (map tokenCount results)"
    and "tokensSkipped stats = failures (runOutcomes node df outDir st0)"
    and "length (runOutcomes node df outDir st0)
           = length (outputFiles df) + length (themeFiles df)"
proof -
  let ?st1 = "st0 \<lparr> world :=
                  sd_registerTransform node CUSTOM_NAME_TRANSFORM
                    (customNameTransform (unicode_toLowercase node)) (world st0) \<rparr>"
  let ?dir = "resolveOutputDir node outDir"
  let ?mk = "if fs_existsSync node (world ?st1) ?dir then Inr (world ?st1)
             else fs_mkdirSync node (world ?st1) ?dir"
  from assms obtain w2 where w2: "?mk = Inr w2"
    by (cases ?mk) (auto simp: transformTokens_def Let_def)
  let ?st2 = "?st1 \<lparr> world := w2 \<rparr>"
  let ?stats0 = "\<lparr> tokensProcessed = 0, tokensSkipped = 0, outputTokenCounts = Map.empty \<rparr>"
  obtain r1 s1 st3 where a1:
    "processFiles node (\<lambda>f. '':root'') (outputFiles df) (allFiles df) ?dir ([], ?stats0, ?st2)
       = (r1, s1, st3)"
    by (metis prod_cases3)
  from assms w2 a1 have a2:
    "processFiles node themeSelector (themeFiles df) (allFiles df) ?dir (r1, s1, st3)
       = (results, stats, st)"
    by (simp add: transformTokens_def Let_def split: prod.splits)
  have ro: "runOutcomes node df outDir st0
      = outcomes node (\<lambda>f. '':root'') (outputFiles df) (allFiles df) ?dir ?st2
        @ outcomes node themeSelector (themeFiles df) (allFiles df) ?dir
            (finalState node (\<lambda>f. '':root'') (outputFiles df) (allFiles df) ?dir ?st2)"
    using w2 unfolding runOutcomes_def Let_def by simp
  note p1 = processFiles_outcomes [OF a1] and p2 = processFiles_outcomes [OF a2]
  from p1 p2 show r: "results = successes (runOutcomes node df outDir st0)"
    unfolding ro by simp
  from p1 p2 show "tokensProcessed stats = sum_list (map tokenCount results)"
    unfolding r ro by simp
  from p1 p2 show "tokensSkipped stats = failures (runOutcomes node df outDir st0)"
    unfolding ro by simp
  show "length (runOutcomes node df outDir st0)
           = length (outputFiles df) + length (themeFiles df)"
    unfolding ro by simp
qed

text \<open>
  C4: when \<open>processTokenFile\<close> throws for a file, the loop records no result for
  it, adds exactly one to the skip counter and goes on with the remaining
  files.  \<open>transformTokens\<close> throws only what \<^verbatim>\<open>fs.mkdirSync\<close> throws before the
  first file, never the exception of a file.  When it returns, the results are
  the successful outcomes of the files in order, the skip counter is the number
  of failed outcomes, every file has one outcome, and \<open>tokensProcessed\<close> is the
  sum of the token counts of the results.
\<close>

theorem per_file_failure_skipped:
  "(\<forall>e st'. processTokenFile node f all dir (sel f) st = (Inl e, st')
       \<longrightarrow> processFiles node sel (f # rest) all dir (results0, stats0, st)
           = processFiles node sel rest all dir
               (results0, stats0 \<lparr> tokensSkipped := tokensSkipped stats0 + 1 \<rparr>, st'))
   \<and> (\<forall>e st1. transformTokens node df outDir st0 = (Inl e, st1)
       \<longrightarrow> \<not> fs_existsSync node (world st1) (resolveOutputDir node outDir)
           \<and> fs_mkdirSync node (world st1) (resolveOutputDir node outDir) = Inl e
           \<and> engineLog st1 = engineLog st0)
   \<and> (\<forall>results stats st1. transformTokens node df outDir st0 = (Inr (results, stats), st1)
       \<longrightarrow> results = successes (runOutcomes node df outDir st0)
           \<and> tokensSkipped stats = failures (runOutcomes node df outDir st0)
           \<and> length (runOutcomes node df outDir st0)
               = length (outputFiles df) + length (themeFiles df)
           \<and> length results + tokensSkipped stats
               = length (outputFiles df) + length (themeFiles df)
           \<and> tokensProcessed stats = sum_list (map tokenCount results))"
proof (intro conjI allI impI)
  fix e st'
  assume "processTokenFile node f all dir (sel f) st = (Inl e, st')"
  then show "processFiles node sel (f # rest) all dir (results0, stats0, st)
           = processFiles node sel rest all dir
               (results0, stats0 \<lparr> tokensSkipped := tokensSkipped stats0 + 1 \<rparr>, st')"
    by simp
next
  fix e st1
  assume t: "transformTokens node df outDir st0 = (Inl e, st1)"
  note i = transformTokens_Inl [OF t]
  show "\<not> fs_existsSync node (world st1) (resolveOutputDir node outDir)" by (rule i(1))
  show "fs_mkdirSync node (world st1) (resolveOutputDir node outDir) = Inl e" by (rule i(2))
  show "engineLog st1 = engineLog st0" by (rule i(3))
next
  fix results stats st1
  assume t: "transformTokens node df outDir st0 = (Inr (results, stats), st1)"
  note r = transformTokens_runOutcomes [OF t]
  show "results = successes (runOutcomes node df outDir st0)" by (rule r(1))
  show "tokensSkipped stats = failures (runOutcomes node df outDir st0)" by (rule r(3))
  show "length (runOutcomes node df outDir st0)
               = length (outputFiles df) + length (themeFiles df)" by (rule r(4))
  show "length results + tokensSkipped stats
               = length (outputFiles df) + length (themeFiles df)"
    using successes_failures [of "runOutcomes node df outDir st0"] r(1,3,4) by simp
  show "tokensProcessed stats = sum_list (map tokenCount results)" by (rule r(2))
qed

lemma sample_run:
  "runOutcomes (sampleNode sampleFiles) sampleDiscovered ''/out'' \<lparr> world = (), engineLog = [] \<rparr>
     = [Inl (Error (legacyMessage ''old.inp.json'')),
        Inr \<lparr> outputPath = ''/out/core.vars.gen.css'', tokenCount = 1,
              inputPath = ''/t/core.inp.json'' \<rparr>,
        Inr \<lparr> outputPath = ''/out/dark.vars.gen.css'', tokenCount = 1,
              inputPath = ''/t/dark.theme.inp.json'' \<rparr>]"
  by code_simp

theorem per_file_failure_skipped_witness:
  "\<exists>results stats st.
      transformTokens (sampleNode sampleFiles) sampleDiscovered ''/out''
        \<lparr> world = (), engineLog = [] \<rparr> = (Inr (results, stats), st)
    \<and> map inputPath results = [''/t/core.inp.json'', ''/t/dark.theme.inp.json'']
    \<and> tokensSkipped stats = 1
    \<and> tokensProcessed stats = 2"
proof -
  let ?st0 = "\<lparr> world = (), engineLog = [] \<rparr> :: unit state"
  let ?node = "sampleNode sampleFiles"
  obtain r st where t: "transformTokens ?node sampleDiscovered ''/out'' ?st0 = (r, st)"
    by (cases "transformTokens ?node sampleDiscovered ''/out'' ?st0")
  note c4 = per_file_failure_skipped [of ?node _ _ _ _ _ _ _ _ sampleDiscovered "''/out''" ?st0]
  have ex: "fs_existsSync ?node w p" for w p by (simp add: sampleNode_def)
  show ?thesis
  proof (cases r)
    case (Inl e)
    with t c4 ex show ?thesis by blast
  next
    case (Inr rs)
    obtain results stats where rs: "rs = (results, stats)" by (cases rs)
    with t Inr have t': "transformTokens ?node sampleDiscovered ''/out'' ?st0
        = (Inr (results, stats), st)" by simp
    with c4 have
      "results = successes (runOutcomes ?node sampleDiscovered ''/out'' ?st0)"
      "tokensSkipped stats = failures (runOutcomes ?node sampleDiscovered ''/out'' ?st0)"
      "tokensProcessed stats = sum_list (map tokenCount results)"
      by blast+
    then have "map inputPath results = [''/t/core.inp.json'', ''/t/dark.theme.inp.json'']"
      "tokensSkipped stats = 1" "tokensProcessed stats = 2"
      unfolding sample_run by (simp_all add: successes_def failures_def)
    with t' have "transformTokens ?node sampleDiscovered ''/out'' ?st0 = (Inr (results, stats), st)
      \<and> map inputPath results = [''/t/core.inp.json'', ''/t/dark.theme.inp.json'']
      \<and> tokensSkipped stats = 1 \<and> tokensProcessed stats = 2" by simp
    then show ?thesis by (intro exI)
  qed
qed

section \<open>Legacy format and the compiled version\<close>

text \<open>
  C5, as stated, fails at the root: the document \<^verbatim>\<open>{"value": "#fff", "type": "color"}\<close>
  is itself an object with a \<^verbatim>\<open>value\<close> key and no \<^verbatim>\<open>$value\<close> key, and it passes
  validation, since the walk looks at the values below the document only.
\<close>

theorem legacy_root_counterexample:
  "containsLegacyObject (JObj [(''value'', JStr ''#fff''), (''type'', JStr ''color'')])
   \<and> validateDTCGFormat (JObj [(''value'', JStr ''#fff''), (''type'', JStr ''color'')])
         ''legacy.inp.json'' = Inr ()"
  by (simp add: containsLegacyObject_def validateDTCGFormat_def)

text \<open>
  C5, amended: for every parsed token document other than \<^verbatim>\<open>null\<close>: if an object
  with a \<^verbatim>\<open>value\<close> key and no \<^verbatim>\<open>$value\<close> key stands anywhere below the root of the
  document (inside objects, arrays or tokens), validation fails with the format
  error, whose message holds the name of the file, and \<open>processTokenFile\<close>
  throws that error without invoking the engine; if no such object stands below
  the root, validation passes.  The failure is that of the one file: the loop
  counts it as skipped and goes on with the remaining files from the same
  state.
\<close>

theorem legacy_format_rejected:
  "(\<forall>es. objectEntries doc = Inr es \<longrightarrow>
       validateDTCGFormat doc fileName
         = (if legacyBelowRoot doc then Inl (Error (legacyMessage fileName)) else Inr ()))
   \<and> (\<exists>before after. legacyMessage fileName = before @ fileName @ after)
   \<and> (\<forall>es. readJSON node (world st) f = Inr doc \<and> objectEntries doc = Inr es
           \<and> legacyBelowRoot doc
       \<longrightarrow> processTokenFile node f all dir (sel f) st
             = (Inl (Error (legacyMessage (basename f))), st)
           \<and> processFiles node sel (f # rest) all dir (results0, stats0, st)
             = processFiles node sel rest all dir
                 (results0, stats0 \<lparr> tokensSkipped := tokensSkipped stats0 + 1 \<rparr>, st))"
proof (intro conjI allI impI)
  fix es
  assume "objectEntries doc = Inr es"
  then show "validateDTCGFormat doc fileName
         = (if legacyBelowRoot doc then Inl (Error (legacyMessage fileName)) else Inr ())"
    by (rule validateDTCGFormat_view)
next
  show "\<exists>before after. legacyMessage fileName = before @ fileName @ after"
    unfolding legacyMessage_def by (intro exI [of _ "''Token file '' @ [CHR 0x22]"] exI) simp
next
  fix es
  assume a: "readJSON node (world st) f = Inr doc \<and> objectEntries doc = Inr es
           \<and> legacyBelowRoot doc"
  then have v: "validateDTCGFormat doc (basename f) = Inl (Error (legacyMessage (basename f)))"
    using validateDTCGFormat_view [of doc es "basename f"] by simp
  from a processTokenFile_invalid [OF _ v]
  show p: "processTokenFile node f all dir (sel f) st
             = (Inl (Error (legacyMessage (basename f))), st)" by blast
  then show "processFiles node sel (f # rest) all dir (results0, stats0, st)
             = processFiles node sel rest all dir
                 (results0, stats0 \<lparr> tokensSkipped := tokensSkipped stats0 + 1 \<rparr>, st)"
    by simp
qed

theorem legacy_format_rejected_witness:
  "processTokenFile (sampleNode sampleFiles) ''/t/old.inp.json'' [''/t/old.inp.json''] ''/out''
      '':root'' \<lparr> world = (), engineLog = [] \<rparr>
     = (Inl (Error (legacyMessage ''old.inp.json'')), \<lparr> world = (), engineLog = [] \<rparr>)
   \<and> validateDTCGFormat
        (JObj [(''mantine'', JObj [(''primary'', JObj [(''$value'', JStr ''{color.primary}'')])])])
        ''core.inp.json'' = Inr ()"
proof -
  let ?old = "JObj [(''c'', JObj [(''value'', JStr ''#fff'')])]"
  let ?core = "JObj [(''mantine'', JObj [(''primary'', JObj [(''$value'', JStr ''{color.primary}'')])])]"
  let ?st = "\<lparr> world = (), engineLog = [] \<rparr> :: unit state"
  have r: "readJSON (sampleNode sampleFiles) (world ?st) ''/t/old.inp.json'' = Inr ?old"
    by (simp add: sampleNode_def sampleFiles_def)
  have e: "objectEntries ?old = Inr [(''c'', JObj [(''value'', JStr ''#fff'')])]" by simp
  have l: "legacyBelowRoot ?old" by (simp add: legacyBelowRoot_def entriesOf_def)
  have b: "basename ''/t/old.inp.json'' = ''old.inp.json''" by code_simp
  from legacy_format_rejected [of ?old _ "sampleNode sampleFiles" ?st "''/t/old.inp.json''"
      "[''/t/old.inp.json'']" "''/out''" "\<lambda>f. '':root''"] r e l
  have p: "processTokenFile (sampleNode sampleFiles) ''/t/old.inp.json'' [''/t/old.inp.json'']
      ''/out'' '':root'' ?st = (Inl (Error (legacyMessage (basename ''/t/old.inp.json''))), ?st)"
    by blast
  have e2: "objectEntries ?core
      = Inr [(''mantine'', JObj [(''primary'', JObj [(''$value'', JStr ''{color.primary}'')])])]"
    by simp
  have l2: "\<not> legacyBelowRoot ?core" by (simp add: legacyBelowRoot_def entriesOf_def)
  from legacy_format_rejected [of ?core "''core.inp.json''"] e2 l2
  have "validateDTCGFormat ?core ''core.inp.json'' = Inr ()" by simp
  with p b show ?thesis by simp
qed








section \<open>Output names and selectors\<close>

lemma endsWith_append [simp]: "endsWith (X @ suffix) suffix"
  by (simp add: endsWith_def)

lemma stripSuffix_append [simp]: "stripSuffix suffix (X @ suffix) = X"
  by (simp add: stripSuffix_def)

lemma theme_not_ref: "\<not> endsWith (X @ ''.theme.inp.json'') ''.ref.inp.json''"
  by (simp add: endsWith_def)

lemma theme_is_output_suffix: "endsWith (X @ ''.theme.inp.json'') ''.inp.json''"
  by (simp add: endsWith_def)

lemma getOutputFileName_output:
  assumes "basename f = X @ ''.inp.json''" "\<not> endsWith (basename f) ''.theme.inp.json''"
  shows "getOutputFileName f = X @ ''.vars.gen.css''"
  using assms
  by (simp add: getOutputFileName_def THEME_PATTERN_def OUTPUT_PATTERN_def Let_def)

lemma getOutputFileName_theme:
  assumes "basename f = X @ ''.theme.inp.json''"
  shows "getOutputFileName f = X @ ''.vars.gen.css''" and "getThemeName f = X"
  using assms
  by (simp_all add: getOutputFileName_def getThemeName_def THEME_PATTERN_def Let_def)

lemma bucketOf_output:
  assumes "basename f = X @ ''.inp.json''" "\<not> endsWith (basename f) ''.ref.inp.json''"
    "\<not> endsWith (basename f) ''.theme.inp.json''"
  shows "bucketOf f = Some Output"
  using assms by (simp add: bucketOf_def)

lemma bucketOf_theme:
  assumes "basename f = X @ ''.theme.inp.json''"
  shows "bucketOf f = Some Theme"
  using assms theme_not_ref [of X] by (simp add: bucketOf_def)

lemma run_log_entry:
  assumes d: "discoverTokenFiles pjoin rootDir rootEntry = Inr df"
    and t: "transformTokens node df outDir st0 = (r, st)"
    and m: "(f, cfg) \<in> set (drop (length (engineLog st0)) (engineLog st))"
  shows "destination cfg = getOutputFileName f"
    and "bucketOf f = Some Output \<Longrightarrow> selector cfg = '':root''"
    and "bucketOf f = Some Theme \<Longrightarrow> selector cfg = themeSelector f"
proof -
  from transformTokens_log [OF t] obtain new1 new2 where
    l: "engineLog st = engineLog st0 @ new1 @ new2"
      "logged (allFiles df) (\<lambda>f. '':root'') (set (outputFiles df)) new1"
      "logged (allFiles df) themeSelector (set (themeFiles df)) new2" by blast
  from m l(1) have c: "(f, cfg) \<in> set new1 \<or> (f, cfg) \<in> set new2" by auto
  with l(2,3) show "destination cfg = getOutputFileName f"
    by (auto simp: logged_def list_all_iff)
  note b = discoverTokenFiles_Inr [OF d]
  show "selector cfg = '':root''" if "bucketOf f = Some Output"
  proof -
    from that b(2) have "f \<notin> set (themeFiles df)" by simp
    with l(3) have "(f, cfg) \<notin> set new2" by (auto simp: logged_def list_all_iff)
    with c l(2) show ?thesis by (auto simp: logged_def list_all_iff)
  qed
  show "selector cfg = themeSelector f" if "bucketOf f = Some Theme"
  proof -
    from that b(3) have "f \<notin> set (outputFiles df)" by simp
    with l(2) have "(f, cfg) \<notin> set new1" by (auto simp: logged_def list_all_iff)
    with c l(3) show ?thesis by (auto simp: logged_def list_all_iff)
  qed
qed

text \<open>
  C1: a file whose basename is \<^verbatim>\<open>X.inp.json\<close> and ends with neither
  \<^verbatim>\<open>.ref.inp.json\<close> nor \<^verbatim>\<open>.theme.inp.json\<close> is an output file, its derived output
  filename is \<^verbatim>\<open>X.vars.gen.css\<close>, and every engine invocation a run makes for it
  has that destination and the selector \<^verbatim>\<open>:root\<close>.  A file whose basename is
  \<^verbatim>\<open>X.theme.inp.json\<close> is a theme file, its derived output filename is
  \<^verbatim>\<open>X.vars.gen.css\<close>, its theme name is \<^verbatim>\<open>X\<close>, and every engine invocation a run
  makes for it has that destination and the selector
  \<^verbatim>\<open>[data-mantine-color-scheme='X']\<close>.
\<close>

theorem output_name_and_selector:
  assumes "discoverTokenFiles pjoin rootDir rootEntry = Inr df"
  shows
   "(\<forall>f X. basename f = X @ ''.inp.json''
        \<and> \<not> endsWith (basename f) ''.ref.inp.json''
        \<and> \<not> endsWith (basename f) ''.theme.inp.json''
      \<longrightarrow> getOutputFileName f = X @ ''.vars.gen.css''
          \<and> bucketOf f = Some Output
          \<and> (\<forall>(node :: 'w node) outDir (st0 :: 'w state) r st cfg.
                transformTokens node df outDir st0 = (r, st)
                  \<and> (f, cfg) \<in> set (drop (length (engineLog st0)) (engineLog st))
                \<longrightarrow> destination cfg = X @ ''.vars.gen.css'' \<and> selector cfg = '':root''))
    \<and> (\<forall>f X. basename f = X @ ''.theme.inp.json''
      \<longrightarrow> getOutputFileName f = X @ ''.vars.gen.css''
          \<and> getThemeName f = X
          \<and> bucketOf f = Some Theme
          \<and> (\<forall>(node :: 'w node) outDir (st0 :: 'w state) r st cfg.
                transformTokens node df outDir st0 = (r, st)
                  \<and> (f, cfg) \<in> set (drop (length (engineLog st0)) (engineLog st))
                \<longrightarrow> destination cfg = X @ ''.vars.gen.css''
                    \<and> selector cfg
                        = ''[data-mantine-color-scheme='' @ [CHR 0x27] @ X @ [CHR 0x27] @ '']''))"
proof (intro conjI allI impI)
  fix f X
  assume a: "basename f = X @ ''.inp.json''
        \<and> \<not> endsWith (basename f) ''.ref.inp.json''
        \<and> \<not> endsWith (basename f) ''.theme.inp.json''"
  then have a1: "basename f = X @ ''.inp.json''"
    and a2: "\<not> endsWith (basename f) ''.ref.inp.json''"
    and a3: "\<not> endsWith (basename f) ''.theme.inp.json''" by blast+
  from a1 a3 show n: "getOutputFileName f = X @ ''.vars.gen.css''"
    by (rule getOutputFileName_output)
  from a1 a2 a3 show b: "bucketOf f = Some Output"
    by (rule bucketOf_output)
  fix node :: "'w node" and outDir and st0 :: "'w state" and r st cfg
  assume "transformTokens node df outDir st0 = (r, st)
                  \<and> (f, cfg) \<in> set (drop (length (engineLog st0)) (engineLog st))"
  then have t: "transformTokens node df outDir st0 = (r, st)"
    and m: "(f, cfg) \<in> set (drop (length (engineLog st0)) (engineLog st))" by simp_all
  from run_log_entry(1) [OF assms t m] n
  show "destination cfg = X @ ''.vars.gen.css''" by simp
  from run_log_entry(2) [OF assms t m b]
  show "selector cfg = '':root''" .
next
  fix f X
  assume a: "basename f = X @ ''.theme.inp.json''"
  from getOutputFileName_theme [OF a]
  show n: "getOutputFileName f = X @ ''.vars.gen.css''" and th: "getThemeName f = X" .
  from a show b: "bucketOf f = Some Theme" by (rule bucketOf_theme)
  fix node :: "'w node" and outDir and st0 :: "'w state" and r st cfg
  assume "transformTokens node df outDir st0 = (r, st)
                  \<and> (f, cfg) \<in> set (drop (length (engineLog st0)) (engineLog st))"
  then have t: "transformTokens node df outDir st0 = (r, st)"
    and m: "(f, cfg) \<in> set (drop (length (engineLog st0)) (engineLog st))" by simp_all
  from run_log_entry(1) [OF assms t m] n
  show "destination cfg = X @ ''.vars.gen.css''" by simp
  from run_log_entry(3) [OF assms t m b] th
  show "selector cfg = ''[data-mantine-color-scheme='' @ [CHR 0x27] @ X @ [CHR 0x27] @ '']''"
    by (simp add: themeSelector_def)
qed

lemma sample_log:
  "map (\<lambda>entry. (fst entry, destination (snd entry), selector (snd entry)))
     (engineLog (snd (transformTokens (sampleNode sampleFiles) sampleDiscovered ''/out''
                        \<lparr> world = (), engineLog = [] \<rparr>)))
   = [(''/t/core.inp.json'', ''core.vars.gen.css'', '':root''),
      (''/t/dark.theme.inp.json'', ''dark.vars.gen.css'',
       ''[data-mantine-color-scheme='' @ [CHR 0x27] @ ''dark'' @ [CHR 0x27] @ '']'')]"
  by code_simp

theorem output_name_and_selector_witness:
  "getOutputFileName ''/t/core.inp.json'' = ''core.vars.gen.css''
   \<and> getOutputFileName ''/t/dark.theme.inp.json'' = ''dark.vars.gen.css''
   \<and> selector (snd (hd (engineLog (snd (transformTokens (sampleNode sampleFiles)
          sampleDiscovered ''/out'' \<lparr> world = (), engineLog = [] \<rparr>))))) = '':root''
   \<and> selector (snd (last (engineLog (snd (transformTokens (sampleNode sampleFiles)
          sampleDiscovered ''/out'' \<lparr> world = (), engineLog = [] \<rparr>)))))
       = ''[data-mantine-color-scheme='' @ [CHR 0x27] @ ''dark'' @ [CHR 0x27] @ '']''"
proof -
  define st0 where "st0 = (\<lparr> world = (), engineLog = [] \<rparr> :: unit state)"
  define run where "run = transformTokens (sampleNode sampleFiles) sampleDiscovered ''/out'' st0"
  define log where "log = engineLog (snd run)"
  define core where "core = ''/t/core.inp.json''"
  define dark where "dark = ''/t/dark.theme.inp.json''"
  have sl: "map (\<lambda>entry. (fst entry, destination (snd entry), selector (snd entry))) log
     = [(core, ''core.vars.gen.css'', '':root''),
        (dark, ''dark.vars.gen.css'',
         ''[data-mantine-color-scheme='' @ [CHR 0x27] @ ''dark'' @ [CHR 0x27] @ '']'')]"
    unfolding log_def run_def st0_def core_def dark_def by (rule sample_log)
  then obtain e1 e2 where log: "log = [e1, e2]" and e1: "fst e1 = core" and e2: "fst e2 = dark"
    by (auto simp: map_eq_Cons_conv)
  have st0: "length (engineLog st0) = 0" by (simp add: st0_def)
  have t: "transformTokens (sampleNode sampleFiles) sampleDiscovered ''/out'' st0
      = (fst run, snd run)" by (simp add: run_def)
  have m1: "(core, snd e1) \<in> set (drop (length (engineLog st0)) (engineLog (snd run)))"
    unfolding st0 using log e1 by (simp add: log_def [symmetric] prod_eq_iff)
  have m2: "(dark, snd e2) \<in> set (drop (length (engineLog st0)) (engineLog (snd run)))"
    unfolding st0 using log e2 by (simp add: log_def [symmetric] prod_eq_iff)
  have b1: "basename core = ''core'' @ ''.inp.json''" unfolding core_def by code_simp
  have b2: "\<not> endsWith (basename core) ''.ref.inp.json''" unfolding core_def by code_simp
  have b3: "\<not> endsWith (basename core) ''.theme.inp.json''" unfolding core_def by code_simp
  have b4: "basename dark = ''dark'' @ ''.theme.inp.json''" unfolding dark_def by code_simp
  note c1 = output_name_and_selector [OF sample_discovery]
  note c1o = c1 [THEN conjunct1, rule_format, of core "''core''", OF conjI [OF b1 conjI [OF b2 b3]]]
  note c1t = c1 [THEN conjunct2, rule_format, of dark "''dark''", OF b4]
  from c1o have o: "getOutputFileName core = ''core'' @ ''.vars.gen.css''" by (rule conjunct1)
  from c1t have th: "getOutputFileName dark = ''dark'' @ ''.vars.gen.css''" by (rule conjunct1)
  from c1o have "\<forall>(node :: unit node) outDir (st0 :: unit state) r st cfg.
                transformTokens node sampleDiscovered outDir st0 = (r, st)
                  \<and> (core, cfg) \<in> set (drop (length (engineLog st0)) (engineLog st))
                \<longrightarrow> destination cfg = ''core'' @ ''.vars.gen.css'' \<and> selector cfg = '':root''"
    by (elim conjE)
  from this [rule_format, OF conjI [OF t m1]] have s1: "selector (snd e1) = '':root''"
    by (rule conjunct2)
  from c1t have "\<forall>(node :: unit node) outDir (st0 :: unit state) r st cfg.
                transformTokens node sampleDiscovered outDir st0 = (r, st)
                  \<and> (dark, cfg) \<in> set (drop (length (engineLog st0)) (engineLog st))
                \<longrightarrow> destination cfg = ''dark'' @ ''.vars.gen.css''
                    \<and> selector cfg
                        = ''[data-mantine-color-scheme='' @ [CHR 0x27] @ ''dark'' @ [CHR 0x27] @ '']''"
    by (elim conjE)
  from this [rule_format, OF conjI [OF t m2]] have s2: "selector (snd e2)
       = ''[data-mantine-color-scheme='' @ [CHR 0x27] @ ''dark'' @ [CHR 0x27] @ '']''"
    by (rule conjunct2)
  have "hd log = e1" "last log = e2" using log by simp_all
  with o th s1 s2 show ?thesis
    unfolding log_def run_def st0_def core_def dark_def by simp
qed

end
